theory Spec2Isabelle
  imports Main "HOL-Library.Word" "HOL-Library.Multiset"
begin

section \<open>JavaScript values\<close>

text \<open>
  The values the entity client of \<^verbatim>\<open>src/api/githubDbClient.js\<close> handles are JSON
  values plus \<^verbatim>\<open>undefined\<close>. A plain object is an association list in property
  order; field names are assumed not to be canonical array indices (which JavaScript
  would enumerate first). Numbers are the integers from \<open>- 2\<^sup>5\<^sup>3\<close> to \<open>2\<^sup>5\<^sup>3 - 1\<close>, read
  with \<open>sint\<close>: a JavaScript number holds each of them exactly and writes it in plain
  decimal digits.
\<close>

datatype json =
    JUndefined
  | JNull
  | JBool bool
  | JNum "54 word"
  | JStr string
  | JArr "json list"
  | JObj "(string \<times> json) list"

type_synonym obj = "(string \<times> json) list"

datatype error = TypeError | URIError | InvalidCharacterError

text \<open>ToBoolean, and the operator \<^verbatim>\<open>a || b\<close>.\<close>

fun truthy :: "json \<Rightarrow> bool" where
  "truthy JUndefined = False"
| "truthy JNull = False"
| "truthy (JBool b) = b"
| "truthy (JNum n) = (n \<noteq> 0)"
| "truthy (JStr s) = (s \<noteq> [])"
| "truthy (JArr xs) = True"
| "truthy (JObj kvs) = True"

definition js_or :: "json \<Rightarrow> json \<Rightarrow> json" where
  "js_or a b = (if truthy a then a else b)"

text \<open>Decimal rendering of an integer (Number::toString on an integer below \<open>10\<^sup>2\<^sup>1\<close>).\<close>

fun show_nat :: "nat \<Rightarrow> string" where
  "show_nat n =
     (if n < 10 then [''0123456789'' ! n]
      else show_nat (n div 10) @ [''0123456789'' ! (n mod 10)])"

declare show_nat.simps [simp del]

definition show_int :: "int \<Rightarrow> string" where
  "show_int i = (if i < 0 then CHR ''-'' # show_nat (nat (- i)) else show_nat (nat i))"

fun join :: "string \<Rightarrow> string list \<Rightarrow> string" where
  "join sep [] = []"
| "join sep [s] = s"
| "join sep (s # t # ss) = s @ sep @ join sep (t # ss)"

text \<open>\<^verbatim>\<open>String(v)\<close>: ToString, with Array.prototype.join for arrays.\<close>

fun js_String :: "json \<Rightarrow> string" where
  "js_String JUndefined = ''undefined''"
| "js_String JNull = ''null''"
| "js_String (JBool b) = (if b then ''true'' else ''false'')"
| "js_String (JNum n) = show_int (sint n)"
| "js_String (JStr s) = s"
| "js_String (JArr xs) =
     join '','' (map (\<lambda>x. if x = JUndefined \<or> x = JNull then [] else js_String x) xs)"
| "js_String (JObj kvs) = ''[object Object]''"

text \<open>QuoteJSONString of the ECMAScript specification, on 8-bit characters.\<close>

definition hex_digit :: "nat \<Rightarrow> char" where
  "hex_digit n = ''0123456789abcdef'' ! n"

definition quote_char :: "char \<Rightarrow> string" where
  "quote_char c =
     (if c = CHR 0x08 then [CHR 0x5C, CHR ''b'']
      else if c = CHR 0x09 then [CHR 0x5C, CHR ''t'']
      else if c = CHR 0x0A then [CHR 0x5C, CHR ''n'']
      else if c = CHR 0x0C then [CHR 0x5C, CHR ''f'']
      else if c = CHR 0x0D then [CHR 0x5C, CHR ''r'']
      else if c = CHR 0x22 then [CHR 0x5C, CHR 0x22]
      else if c = CHR 0x5C then [CHR 0x5C, CHR 0x5C]
      else if of_char c < (0x20 :: nat)
        then [CHR 0x5C, CHR ''u'', CHR ''0'', CHR ''0'',
              hex_digit (of_char c div 16), hex_digit (of_char c mod 16)]
      else [c])"

definition quote :: "string \<Rightarrow> string" where
  "quote s = [CHR 0x22] @ concat (map quote_char s) @ [CHR 0x22]"

text \<open>
  \<^verbatim>\<open>JSON.stringify(v)\<close> without indentation; \<open>None\<close> is the result
  \<^verbatim>\<open>undefined\<close>. An undefined array element is written \<^verbatim>\<open>null\<close>, an
  undefined property is left out.
\<close>

fun JSON_stringify :: "json \<Rightarrow> string option" where
  "JSON_stringify JUndefined = None"
| "JSON_stringify JNull = Some ''null''"
| "JSON_stringify (JBool b) = Some (if b then ''true'' else ''false'')"
| "JSON_stringify (JNum n) = Some (show_int (sint n))"
| "JSON_stringify (JStr s) = Some (quote s)"
| "JSON_stringify (JArr xs) =
     Some (''['' @ join '',''
        (map (\<lambda>x. case JSON_stringify x of None \<Rightarrow> ''null'' | Some s \<Rightarrow> s) xs) @ '']'')"
| "JSON_stringify (JObj kvs) =
     Some (''{'' @ join '',''
        (concat (map (\<lambda>(k, v). case JSON_stringify v of None \<Rightarrow> []
                                 | Some s \<Rightarrow> [quote k @ '':'' @ s]) kvs)) @ ''}'')"

text \<open>
  What \<^verbatim>\<open>JSON.parse\<close> reads back from the text \<^verbatim>\<open>JSON.stringify\<close> wrote:
  the value itself, without its undefined properties and with \<^verbatim>\<open>null\<close> for its
  undefined array elements.
\<close>

fun json_roundtrip :: "json \<Rightarrow> json" where
  "json_roundtrip (JArr xs) =
     JArr (map (\<lambda>x. if x = JUndefined then JNull else json_roundtrip x) xs)"
| "json_roundtrip (JObj kvs) =
     JObj (map (\<lambda>(k, v). (k, json_roundtrip v)) (filter (\<lambda>(k, v). v \<noteq> JUndefined) kvs))"
| "json_roundtrip v = v"

definition roundtrip_obj :: "obj \<Rightarrow> obj" where
  "roundtrip_obj item =
     map (\<lambda>(k, v). (k, json_roundtrip v)) (filter (\<lambda>(k, v). v \<noteq> JUndefined) item)"

text \<open>A value that is JSON: \<^verbatim>\<open>undefined\<close> occurs nowhere in it.\<close>

fun is_json :: "json \<Rightarrow> bool" where
  "is_json JUndefined = False"
| "is_json (JArr xs) = list_all is_json xs"
| "is_json (JObj kvs) = list_all (\<lambda>(k, v). is_json v) kvs"
| "is_json v = True"

definition is_json_obj :: "obj \<Rightarrow> bool" where
  "is_json_obj item = list_all (\<lambda>(k, v). is_json v) item"

subsection \<open>Objects\<close>

text \<open>
  Property read \<^verbatim>\<open>o[k]\<close>, property write \<^verbatim>\<open>o[k] = v\<close>, and the spread
  \<^verbatim>\<open>{...target, ...source}\<close>. Objects are values here, so the shallow copy
  \<^verbatim>\<open>{...target}\<close> is \<open>target\<close> itself.
\<close>

definition obj_get :: "obj \<Rightarrow> string \<Rightarrow> json" where
  "obj_get item k = (case map_of item k of None \<Rightarrow> JUndefined | Some v \<Rightarrow> v)"

fun obj_set :: "obj \<Rightarrow> string \<Rightarrow> json \<Rightarrow> obj" where
  "obj_set [] k v = [(k, v)]"
| "obj_set ((k', v') # kvs) k v =
     (if k' = k then (k, v) # kvs else (k', v') # obj_set kvs k v)"

definition obj_assign :: "obj \<Rightarrow> obj \<Rightarrow> obj" where
  "obj_assign target source = foldl (\<lambda>acc (k, v). obj_set acc k v) target source"

definition Object_keys :: "obj \<Rightarrow> string list" where
  "Object_keys item = map fst item"

text \<open>Property read on any value; \<^verbatim>\<open>null.k\<close> and \<^verbatim>\<open>undefined.k\<close> throw.\<close>

fun get_prop :: "json \<Rightarrow> string \<Rightarrow> error + json" where
  "get_prop JUndefined k = Inl TypeError"
| "get_prop JNull k = Inl TypeError"
| "get_prop (JObj kvs) k = Inr (obj_get kvs k)"
| "get_prop v k = Inr JUndefined"

subsection \<open>Arrays\<close>

text \<open>
  Strict equality \<^verbatim>\<open>===\<close> between an array element and a searched value: primitives
  are compared by value; an array or object read from storage is never the same object
  as the argument of the call.
\<close>

fun is_primitive :: "json \<Rightarrow> bool" where
  "is_primitive (JArr xs) = False"
| "is_primitive (JObj kvs) = False"
| "is_primitive v = True"

definition strict_equals :: "json \<Rightarrow> json \<Rightarrow> bool" where
  "strict_equals a b = (is_primitive a \<and> a = b)"

text \<open>\<^verbatim>\<open>xs.indexOf(a)\<close>; \<open>None\<close> is \<^verbatim>\<open>-1\<close>.\<close>

fun indexOf :: "json list \<Rightarrow> json \<Rightarrow> nat option" where
  "indexOf [] a = None"
| "indexOf (x # xs) a =
     (if strict_equals x a then Some 0 else map_option Suc (indexOf xs a))"

text \<open>\<^verbatim>\<open>xs.splice(i, 1)\<close>.\<close>

definition splice1 :: "'a list \<Rightarrow> nat \<Rightarrow> 'a list" where
  "splice1 xs i = take i xs @ drop (Suc i) xs"

text \<open>\<^verbatim>\<open>s.indexOf(t) !== -1\<close> on strings.\<close>

definition string_includes :: "string \<Rightarrow> string \<Rightarrow> bool" where
  "string_includes s t = list_ex (\<lambda>i. take (length t) (drop i s) = t) [0 ..< Suc (length s)]"

text \<open>\<^verbatim>\<open>xs.findIndex(p)\<close> and \<^verbatim>\<open>xs.find(p)\<close>.\<close>

fun findIndex :: "('a \<Rightarrow> bool) \<Rightarrow> 'a list \<Rightarrow> nat option" where
  "findIndex p [] = None"
| "findIndex p (x # xs) = (if p x then Some 0 else map_option Suc (findIndex p xs))"

text \<open>The array spread \<^verbatim>\<open>[...v]\<close>: only arrays and strings are iterable.\<close>

fun spread_array :: "json \<Rightarrow> error + json list" where
  "spread_array (JArr xs) = Inr xs"
| "spread_array (JStr s) = Inr (map (\<lambda>c. JStr [c]) s)"
| "spread_array v = Inl TypeError"

text \<open>\<^verbatim>\<open>xs.slice(0, n)\<close>; a negative \<open>n\<close> counts from the end.\<close>

definition slice0 :: "'a list \<Rightarrow> int \<Rightarrow> 'a list" where
  "slice0 xs n = (if n < 0 then take (nat (int (length xs) + n)) xs else take (nat n) xs)"



section \<open>The encoding of the stored text\<close>

text \<open>
  A JavaScript string is the list of its UTF-16 code units, a binary string one whose
  units are bytes; units, bytes and code points are natural numbers.
\<close>

definition is_lead :: "nat \<Rightarrow> bool" where
  "is_lead c = (0xD800 \<le> c \<and> c \<le> 0xDBFF)"

definition is_trail :: "nat \<Rightarrow> bool" where
  "is_trail c = (0xDC00 \<le> c \<and> c \<le> 0xDFFF)"

text \<open>UTF16SurrogatePairToCodePoint.\<close>

definition pair_code_point :: "nat \<Rightarrow> nat \<Rightarrow> nat" where
  "pair_code_point lead trail = (lead - 0xD800) * 0x400 + (trail - 0xDC00) + 0x10000"

text \<open>The UTF-8 octets of a code point.\<close>

definition utf8_octets :: "nat \<Rightarrow> nat list" where
  "utf8_octets cp =
     (if cp < 0x80 then [cp]
      else if cp < 0x800 then [0xC0 + cp div 64, 0x80 + cp mod 64]
      else if cp < 0x10000
        then [0xE0 + cp div 4096, 0x80 + cp div 64 mod 64, 0x80 + cp mod 64]
      else [0xF0 + cp div 262144, 0x80 + cp div 4096 mod 64, 0x80 + cp div 64 mod 64,
            0x80 + cp mod 64])"

text \<open>The characters \<^verbatim>\<open>encodeURIComponent\<close> leaves alone: letters, digits and
  \<^verbatim>\<open>- _ . ! ~ * ' ( )\<close>.\<close>

definition uriUnreserved :: "nat \<Rightarrow> bool" where
  "uriUnreserved c =
     ((0x41 \<le> c \<and> c \<le> 0x5A) \<or> (0x61 \<le> c \<and> c \<le> 0x7A) \<or> (0x30 \<le> c \<and> c \<le> 0x39) \<or>
      c \<in> set [0x2D, 0x5F, 0x2E, 0x21, 0x7E, 0x2A, 0x27, 0x28, 0x29])"

definition hex_upper :: "nat \<Rightarrow> nat" where
  "hex_upper d = (if d < 10 then 0x30 + d else 0x41 + (d - 10))"

text \<open>An octet as \<^verbatim>\<open>%XX\<close>.\<close>

definition percent :: "nat \<Rightarrow> nat list" where
  "percent octet = [0x25, hex_upper (octet div 16), hex_upper (octet mod 16)]"

definition prepend :: "nat list \<Rightarrow> error + nat list \<Rightarrow> error + nat list" where
  "prepend xs r = (case r of Inl e \<Rightarrow> Inl e | Inr ys \<Rightarrow> Inr (xs @ ys))"

text \<open>
  \<^verbatim>\<open>encodeURIComponent\<close> (the abstract operation Encode): an unreserved unit is
  kept, any other code point is written as its percent-encoded UTF-8 octets, and an
  unpaired surrogate throws URIError.
\<close>

fun encodeURIComponent :: "nat list \<Rightarrow> error + nat list" where
  "encodeURIComponent [] = Inr []"
| "encodeURIComponent (c # cs) =
     (if uriUnreserved c then prepend [c] (encodeURIComponent cs)
      else if is_trail c then Inl URIError
      else if is_lead c then
        (case cs of
           [] \<Rightarrow> Inl URIError
         | d # ds \<Rightarrow>
             if is_trail d
             then prepend (concat (map percent (utf8_octets (pair_code_point c d))))
                    (encodeURIComponent ds)
             else Inl URIError)
      else prepend (concat (map percent (utf8_octets c))) (encodeURIComponent cs))"

text \<open>\<^verbatim>\<open>unescape\<close>: \<^verbatim>\<open>%uXXXX\<close> and \<^verbatim>\<open>%XX\<close> become the unit of that number.\<close>

definition hexDigit :: "nat \<Rightarrow> bool" where
  "hexDigit c = ((0x30 \<le> c \<and> c \<le> 0x39) \<or> (0x41 \<le> c \<and> c \<le> 0x46) \<or> (0x61 \<le> c \<and> c \<le> 0x66))"

definition hexValue :: "nat \<Rightarrow> nat" where
  "hexValue c = (if c \<le> 0x39 then c - 0x30 else if c \<le> 0x46 then c - 0x41 + 10 else c - 0x61 + 10)"

definition hexNumber :: "nat list \<Rightarrow> nat" where
  "hexNumber ds = foldl (\<lambda>n d. 16 * n + hexValue d) 0 ds"

function unescape :: "nat list \<Rightarrow> nat list" where
  "unescape [] = []"
| "unescape (c # cs) =
     (if c = 0x25 \<and> 5 \<le> length cs \<and> cs ! 0 = 0x75 \<and> list_all hexDigit (take 4 (drop 1 cs))
      then hexNumber (take 4 (drop 1 cs)) # unescape (drop 5 cs)
      else if c = 0x25 \<and> 2 \<le> length cs \<and> list_all hexDigit (take 2 cs)
      then hexNumber (take 2 cs) # unescape (drop 2 cs)
      else c # unescape cs)"
  by pat_completeness auto
termination
  by (relation "measure length") auto

text \<open>The base64 alphabet, and \<^verbatim>\<open>btoa\<close>: it throws on a unit above 255.\<close>

definition b64_char :: "nat \<Rightarrow> nat" where
  "b64_char n =
     (if n < 26 then 0x41 + n
      else if n < 52 then 0x61 + (n - 26)
      else if n < 62 then 0x30 + (n - 52)
      else if n = 62 then 0x2B
      else 0x2F)"

fun base64_encode :: "nat list \<Rightarrow> nat list" where
  "base64_encode (a # b # c # rest) =
     [b64_char (a div 4), b64_char (a mod 4 * 16 + b div 16),
      b64_char (b mod 16 * 4 + c div 64), b64_char (c mod 64)] @ base64_encode rest"
| "base64_encode [a, b] =
     [b64_char (a div 4), b64_char (a mod 4 * 16 + b div 16), b64_char (b mod 16 * 4), 0x3D]"
| "base64_encode [a] = [b64_char (a div 4), b64_char (a mod 4 * 16), 0x3D, 0x3D]"
| "base64_encode [] = []"

definition btoa :: "nat list \<Rightarrow> error + nat list" where
  "btoa s = (if list_ex (\<lambda>c. 0xFF < c) s then Inl InvalidCharacterError
             else Inr (base64_encode s))"

text \<open>
  \<^verbatim>\<open>atob\<close> (forgiving-base64 decode): ASCII whitespace is dropped, then up to two
  padding characters of a text whose length is a multiple of four; a length that leaves
  the remainder one, or a character outside the alphabet, throws; a last group of two
  or three characters gives one or two bytes.
\<close>

definition ascii_whitespace :: "nat \<Rightarrow> bool" where
  "ascii_whitespace c = (c \<in> set [0x09, 0x0A, 0x0C, 0x0D, 0x20])"

definition is_b64 :: "nat \<Rightarrow> bool" where
  "is_b64 c =
     ((0x41 \<le> c \<and> c \<le> 0x5A) \<or> (0x61 \<le> c \<and> c \<le> 0x7A) \<or> (0x30 \<le> c \<and> c \<le> 0x39) \<or>
      c = 0x2B \<or> c = 0x2F)"

definition b64_value :: "nat \<Rightarrow> nat" where
  "b64_value c =
     (if 0x41 \<le> c \<and> c \<le> 0x5A then c - 0x41
      else if 0x61 \<le> c \<and> c \<le> 0x7A then c - 0x61 + 26
      else if 0x30 \<le> c \<and> c \<le> 0x39 then c - 0x30 + 52
      else if c = 0x2B then 62
      else 63)"

definition strip_padding :: "nat list \<Rightarrow> nat list" where
  "strip_padding d =
     (if length d mod 4 = 0 then
        (case rev d of
           p # q # r \<Rightarrow> if p = 0x3D \<and> q = 0x3D then rev r
                        else if p = 0x3D then rev (q # r) else d
         | _ \<Rightarrow> d)
      else d)"

fun base64_decode :: "nat list \<Rightarrow> nat list" where
  "base64_decode (a # b # c # d # rest) =
     (let n = ((b64_value a * 64 + b64_value b) * 64 + b64_value c) * 64 + b64_value d
      in [n div 65536, n div 256 mod 256, n mod 256]) @ base64_decode rest"
| "base64_decode [a, b, c] =
     (let n = (b64_value a * 64 + b64_value b) * 64 + b64_value c
      in [n div 1024, n div 4 mod 256])"
| "base64_decode [a, b] = (let n = b64_value a * 64 + b64_value b in [n div 16])"
| "base64_decode [a] = []"
| "base64_decode [] = []"

definition atob :: "nat list \<Rightarrow> error + nat list" where
  "atob data =
     (let d = strip_padding (filter (\<lambda>c. \<not> ascii_whitespace c) data)
      in if length d mod 4 = 1 \<or> \<not> list_all is_b64 d then Inl InvalidCharacterError
         else Inr (base64_decode d))"

text \<open>
  \<^verbatim>\<open>Uint8Array.from(binary, c => c.charCodeAt(0))\<close>, on the string \<^verbatim>\<open>atob\<close>
  returned (no surrogates in it): each unit, reduced to eight bits.
\<close>

definition Uint8Array_from :: "nat list \<Rightarrow> nat list" where
  "Uint8Array_from binary = map (\<lambda>c. c mod 256) binary"

text \<open>
  The UTF-8 decoder of \<^verbatim>\<open>new TextDecoder()\<close>: the state is the code point under
  construction, the bytes seen and needed and the bounds of the next byte; a byte that
  does not fit gives U+FFFD and is read again from the initial state.
\<close>

function utf8_decode :: "nat \<Rightarrow> nat \<Rightarrow> nat \<Rightarrow> nat \<Rightarrow> nat \<Rightarrow> nat list \<Rightarrow> nat list" where
  "utf8_decode cp seen needed lower upper [] = (if needed \<noteq> 0 then [0xFFFD] else [])"
| "utf8_decode cp seen needed lower upper (b # bs) =
     (if needed = 0 then
        (if b \<le> 0x7F then b # utf8_decode 0 0 0 0x80 0xBF bs
         else if 0xC2 \<le> b \<and> b \<le> 0xDF then utf8_decode (b mod 32) 0 1 0x80 0xBF bs
         else if 0xE0 \<le> b \<and> b \<le> 0xEF
           then utf8_decode (b mod 16) 0 2 (if b = 0xE0 then 0xA0 else 0x80)
                  (if b = 0xED then 0x9F else 0xBF) bs
         else if 0xF0 \<le> b \<and> b \<le> 0xF4
           then utf8_decode (b mod 8) 0 3 (if b = 0xF0 then 0x90 else 0x80)
                  (if b = 0xF4 then 0x8F else 0xBF) bs
         else 0xFFFD # utf8_decode 0 0 0 0x80 0xBF bs)
      else if b < lower \<or> upper < b then 0xFFFD # utf8_decode 0 0 0 0x80 0xBF (b # bs)
      else if Suc seen \<noteq> needed
        then utf8_decode (cp * 64 + b mod 64) (Suc seen) needed 0x80 0xBF bs
      else (cp * 64 + b mod 64) # utf8_decode 0 0 0 0x80 0xBF bs)"
  by pat_completeness auto
termination
  by (relation "measure (\<lambda>(cp, seen, needed, lower, upper, bs).
        2 * length bs + (if needed = 0 then 0 else 1))") auto

text \<open>The units of a decoded code point, and the byte order mark the decoder drops.\<close>

definition utf16_units :: "nat \<Rightarrow> nat list" where
  "utf16_units cp =
     (if cp < 0x10000 then [cp]
      else [0xD800 + (cp - 0x10000) div 0x400, 0xDC00 + (cp - 0x10000) mod 0x400])"

fun strip_bom :: "nat list \<Rightarrow> nat list" where
  "strip_bom [] = []"
| "strip_bom (cp # cps) = (if cp = 0xFEFF then cps else cp # cps)"

definition TextDecoder_decode :: "nat list \<Rightarrow> nat list" where
  "TextDecoder_decode bytes =
     concat (map utf16_units (strip_bom (utf8_decode 0 0 0 0x80 0xBF bytes)))"

text \<open>
  The write path of \<open>setStorage\<close>:
  \<^verbatim>\<open>btoa(unescape(encodeURIComponent(jsonString)))\<close>, and \<^verbatim>\<open>btoa(jsonString)\<close>
  when that throws. The read path of \<open>getStorage\<close>: \<^verbatim>\<open>atob\<close>, the bytes, the
  decoder; when \<^verbatim>\<open>atob\<close> throws, the fallback calls it again on the same content
  and the text is \<^verbatim>\<open>null\<close>.
\<close>

definition encode_content :: "nat list \<Rightarrow> error + nat list" where
  "encode_content str =
     (case encodeURIComponent str of
        Inl err \<Rightarrow> btoa str
      | Inr escaped \<Rightarrow>
          (case btoa (unescape escaped) of
             Inl err \<Rightarrow> btoa str
           | Inr content \<Rightarrow> Inr content))"

definition decode_content :: "nat list \<Rightarrow> nat list option" where
  "decode_content content =
     (case atob content of
        Inl err \<Rightarrow> None
      | Inr binary \<Rightarrow> Some (TextDecoder_decode (Uint8Array_from binary)))"

text \<open>A JavaScript string: its units have sixteen bits.\<close>

definition is_string :: "nat list \<Rightarrow> bool" where
  "is_string s = list_all (\<lambda>c. c < 0x10000) s"

text \<open>A string without unpaired surrogates.\<close>

fun well_formed :: "nat list \<Rightarrow> bool" where
  "well_formed [] = True"
| "well_formed (c # cs) =
     (if is_lead c then (case cs of [] \<Rightarrow> False | d # ds \<Rightarrow> is_trail d \<and> well_formed ds)
      else \<not> is_trail c \<and> well_formed cs)"

text \<open>The code points of a string (CodePointAt, repeated), and a Unicode scalar value.\<close>

fun code_points :: "nat list \<Rightarrow> nat list" where
  "code_points [] = []"
| "code_points (c # cs) =
     (if is_lead c then (case cs of [] \<Rightarrow> [c] | d # ds \<Rightarrow> pair_code_point c d # code_points ds)
      else c # code_points cs)"

definition scalar :: "nat \<Rightarrow> bool" where
  "scalar cp = (cp < 0x110000 \<and> \<not> (0xD800 \<le> cp \<and> cp \<le> 0xDFFF))"

text \<open>The base64 text of some bytes without its padding, and the padding.\<close>

fun b64_body :: "nat list \<Rightarrow> nat list" where
  "b64_body (a # b # c # rest) =
     [b64_char (a div 4), b64_char (a mod 4 * 16 + b div 16),
      b64_char (b mod 16 * 4 + c div 64), b64_char (c mod 64)] @ b64_body rest"
| "b64_body [a, b] =
     [b64_char (a div 4), b64_char (a mod 4 * 16 + b div 16), b64_char (b mod 16 * 4)]"
| "b64_body [a] = [b64_char (a div 4), b64_char (a mod 4 * 16)]"
| "b64_body [] = []"

fun b64_padding :: "nat list \<Rightarrow> nat list" where
  "b64_padding (a # b # c # rest) = b64_padding rest"
| "b64_padding [a, b] = [0x3D]"
| "b64_padding [a] = [0x3D, 0x3D]"
| "b64_padding [] = []"

subsection \<open>The text that is encoded\<close>

text \<open>
  The write path encodes \<^verbatim>\<open>JSON.stringify(validatedData, null, 2)\<close>, the read path
  hands the decoded text to \<^verbatim>\<open>JSON.parse\<close>. A value is taken here as
  \<^verbatim>\<open>JSON.stringify\<close> meets it: a string is any list of 16-bit units, unpaired
  surrogates included, and a number is kept as the text Number::toString gives it
  (NaN and the infinities are written \<^verbatim>\<open>null\<close>, as \<open>VNull\<close> is).
\<close>

datatype jsvalue =
    VUndefined
  | VNull
  | VBool bool
  | VNumber string
  | VString "16 word list"
  | VArray "jsvalue list"
  | VObject "(16 word list \<times> jsvalue) list"

definition units_of :: "string \<Rightarrow> nat list" where
  "units_of s = map of_char s"

text \<open>
  QuoteJSONString: the code points of the string one by one; a surrogate pair is kept,
  an unpaired surrogate and a control character are written as an escape.
\<close>

definition hex_lower :: "nat \<Rightarrow> nat" where
  "hex_lower d = (if d < 10 then 0x30 + d else 0x61 + (d - 10))"

definition UnicodeEscape :: "nat \<Rightarrow> nat list" where
  "UnicodeEscape c =
     [0x5C, 0x75, hex_lower (c div 4096 mod 16), hex_lower (c div 256 mod 16),
      hex_lower (c div 16 mod 16), hex_lower (c mod 16)]"

definition quote_code_point :: "nat \<Rightarrow> nat list" where
  "quote_code_point c =
     (if c = 0x08 then [0x5C, 0x62]
      else if c = 0x09 then [0x5C, 0x74]
      else if c = 0x0A then [0x5C, 0x6E]
      else if c = 0x0C then [0x5C, 0x66]
      else if c = 0x0D then [0x5C, 0x72]
      else if c = 0x22 then [0x5C, 0x22]
      else if c = 0x5C then [0x5C, 0x5C]
      else if c < 0x20 \<or> is_lead c \<or> is_trail c then UnicodeEscape c
      else [c])"

fun quote_units :: "nat list \<Rightarrow> nat list" where
  "quote_units [] = []"
| "quote_units [c] = quote_code_point c"
| "quote_units (c # d # ds) =
     (if is_lead c \<and> is_trail d then c # d # quote_units ds
      else quote_code_point c @ quote_units (d # ds))"

definition QuoteJSONString :: "nat list \<Rightarrow> nat list" where
  "QuoteJSONString s = [0x22] @ quote_units s @ [0x22]"

text \<open>
  SerializeJSONProperty with the gap of two spaces, at a nesting depth: an array or
  object that is not empty has each element on a line of its own, indented by its
  depth; an undefined element of an array is written \<^verbatim>\<open>null\<close>, an undefined
  property is left out.
\<close>

fun join_units :: "nat list \<Rightarrow> nat list list \<Rightarrow> nat list" where
  "join_units sep [] = []"
| "join_units sep [s] = s"
| "join_units sep (s # t # ss) = s @ sep @ join_units sep (t # ss)"

definition indent :: "nat \<Rightarrow> nat list" where
  "indent depth = replicate (2 * depth) 0x20"

definition wrap :: "nat \<Rightarrow> nat \<Rightarrow> nat \<Rightarrow> nat list list \<Rightarrow> nat list" where
  "wrap opening closing depth partial =
     (if partial = [] then [opening, closing]
      else [opening, 0x0A] @ indent (Suc depth) @
           join_units ([0x2C, 0x0A] @ indent (Suc depth)) partial @
           [0x0A] @ indent depth @ [closing])"

fun SerializeJSONProperty :: "nat \<Rightarrow> jsvalue \<Rightarrow> nat list option" where
  "SerializeJSONProperty depth VUndefined = None"
| "SerializeJSONProperty depth VNull = Some (units_of ''null'')"
| "SerializeJSONProperty depth (VBool b) = Some (units_of (if b then ''true'' else ''false''))"
| "SerializeJSONProperty depth (VNumber t) = Some (units_of t)"
| "SerializeJSONProperty depth (VString s) = Some (QuoteJSONString (map unat s))"
| "SerializeJSONProperty depth (VArray xs) =
     Some (wrap 0x5B 0x5D depth
       (map (\<lambda>x. case SerializeJSONProperty (Suc depth) x of
                    None \<Rightarrow> units_of ''null'' | Some t \<Rightarrow> t) xs))"
| "SerializeJSONProperty depth (VObject kvs) =
     Some (wrap 0x7B 0x7D depth
       (concat (map (\<lambda>(k, v). case SerializeJSONProperty (Suc depth) v of
                                 None \<Rightarrow> []
                               | Some t \<Rightarrow> [QuoteJSONString (map unat k) @ [0x3A, 0x20] @ t])
                  kvs)))"

text \<open>The text of a collection, \<^verbatim>\<open>JSON.stringify(validatedData, null, 2)\<close>.\<close>

definition JSON_text :: "jsvalue list \<Rightarrow> nat list" where
  "JSON_text validatedData =
     (case SerializeJSONProperty 0 (VArray validatedData) of None \<Rightarrow> [] | Some t \<Rightarrow> t)"

text \<open>
  The value \<^verbatim>\<open>JSON.stringify\<close> meets for a value of the entity client: its
  strings as units, its numbers as their text.
\<close>

fun js_value :: "json \<Rightarrow> jsvalue" where
  "js_value JUndefined = VUndefined"
| "js_value JNull = VNull"
| "js_value (JBool b) = VBool b"
| "js_value (JNum n) = VNumber (show_int (sint n))"
| "js_value (JStr s) = VString (map of_char s)"
| "js_value (JArr xs) = VArray (map js_value xs)"
| "js_value (JObj kvs) = VObject (map (\<lambda>(k, v). (map of_char k, js_value v)) kvs)"

section \<open>The two stores\<close>

text \<open>
  A stored text is kept as what \<^verbatim>\<open>JSON.parse\<close> makes of it: an array of records,
  the value \<^verbatim>\<open>null\<close>, or anything else (an empty or unreadable text, a content
  that does not decode, or a value that is not an array), which \<open>getStorage\<close> resets
  to the empty array. A file of the repository is kept the same way, as the parse of
  what \<open>decode_content\<close> makes of its content. The elements of a stored array are
  taken to be objects.
\<close>

datatype blob = Collection "obj list" | JsonNull | Unusable

datatype 'a response = Ok 'a | Status404 | Status409 | Failed

text \<open>
  One client session and the repository it talks to. \<open>sha_of\<close> is the repository's
  revision token of a content; \<open>faults\<close> says for the coming remote calls which ones
  fail in transit (none once the list is used up); \<open>clock\<close> and \<open>random\<close> are the
  readings of \<^verbatim>\<open>new Date().toISOString()\<close> and of
  \<^verbatim>\<open>Math.random().toString(36)\<close>, in the order they are taken.
\<close>

record world =
  github :: bool
  sha_of :: "blob \<Rightarrow> nat"
  remote :: "string \<rightharpoonup> blob"
  faults :: "bool list"
  shaCache :: "string \<rightharpoonup> nat"
  localStorage :: "string \<rightharpoonup> blob"
  pricepilot_user :: "json option"
  clock :: "nat \<Rightarrow> string"
  ticks :: nat
  random :: "nat \<Rightarrow> string"
  draws :: nat

definition data_path :: "string \<Rightarrow> string" where
  "data_path entityName = ''data/'' @ entityName @ ''.json''"

definition local_key :: "string \<Rightarrow> string" where
  "local_key entityName = ''pricepilot_db_data/'' @ entityName @ ''.json''"

text \<open>
  The remote repository interface (spec, sections 4.1 and 6): a read answers the content
  and its revision token or 404; a write succeeds when the caller's token is the
  current one (none for a file that does not exist) and answers 409 otherwise.
\<close>

definition transit :: "world \<Rightarrow> bool \<times> world" where
  "transit w = (case faults w of [] \<Rightarrow> (False, w) | f # fs \<Rightarrow> (f, w\<lparr>faults := fs\<rparr>))"

definition getContent :: "string \<Rightarrow> world \<Rightarrow> (blob \<times> nat) response \<times> world" where
  "getContent path w =
     (case transit w of
        (True, w') \<Rightarrow> (Failed, w')
      | (False, w') \<Rightarrow>
          (case remote w' path of
             None \<Rightarrow> (Status404, w')
           | Some b \<Rightarrow> (Ok (b, sha_of w' b), w')))"

definition createOrUpdateFileContents ::
  "string \<Rightarrow> blob \<Rightarrow> nat option \<Rightarrow> world \<Rightarrow> nat response \<times> world" where
  "createOrUpdateFileContents path content sha w =
     (case transit w of
        (True, w') \<Rightarrow> (Failed, w')
      | (False, w') \<Rightarrow>
          if map_option (sha_of w') (remote w' path) = sha
          then (Ok (sha_of w' content), w'\<lparr>remote := (remote w')(path \<mapsto> content)\<rparr>)
          else (Status409, w'))"

fun validateData :: "blob \<Rightarrow> obj list" where
  "validateData (Collection items) = items"
| "validateData JsonNull = []"
| "validateData Unusable = []"

text \<open>\<^verbatim>\<open>localData ? JSON.parse(localData) : []\<close>, an unreadable text giving \<^verbatim>\<open>[]\<close>.\<close>

fun parse_or_empty :: "blob option \<Rightarrow> blob" where
  "parse_or_empty None = Collection []"
| "parse_or_empty (Some Unusable) = Collection []"
| "parse_or_empty (Some b) = b"

text \<open>
  \<open>getStorage\<close>: the remote file when GitHub is configured (404 is the empty
  collection, any other failure falls back to localStorage), localStorage otherwise.
  The debug line reads \<^verbatim>\<open>data.length\<close> before \<open>validateData\<close>, which throws
  when the text parsed to \<^verbatim>\<open>null\<close>.
\<close>

definition getStorage :: "string \<Rightarrow> world \<Rightarrow> (error + obj list) \<times> world" where
  "getStorage entityName w =
     (let (data, w') =
        (if github w then
           (case getContent (data_path entityName) w of
              (Ok (b, sha), w1) \<Rightarrow>
                (parse_or_empty (Some b), w1\<lparr>shaCache := (shaCache w1)(entityName \<mapsto> sha)\<rparr>)
            | (Status404, w1) \<Rightarrow> (Collection [], w1)
            | (_, w1) \<Rightarrow> (parse_or_empty (localStorage w1 (local_key entityName)), w1))
         else (parse_or_empty (localStorage w (local_key entityName)), w))
      in if data = JsonNull then (Inl TypeError, w') else (Inr (validateData data), w'))"

text \<open>
  \<open>setStorage\<close>: the text written is the serialization of the (validated) array,
  \<open>jsonString\<close> being what that text parses to. With GitHub configured the text is
  encoded first, and an encoding that throws is a failure like any other. A 409 is
  answered by one read that refreshes the cached token and one more write of the same
  text, encoded again; every other failure, and a failure of the retry, stores the
  text in localStorage. The commit message is not part of the state.
\<close>

definition jsonString :: "obj list \<Rightarrow> blob" where
  "jsonString items = Collection (map roundtrip_obj items)"

definition setItem :: "string \<Rightarrow> blob \<Rightarrow> world \<Rightarrow> world" where
  "setItem key text w = w\<lparr>localStorage := (localStorage w)(key \<mapsto> text)\<rparr>"

definition setStorage :: "string \<Rightarrow> obj list \<Rightarrow> world \<Rightarrow> world" where
  "setStorage entityName data w =
     (let validatedData = validateData (Collection data);
          content = jsonString validatedData
      in if github w then
           (case encode_content (JSON_text (map (\<lambda>item. js_value (JObj item)) validatedData)) of
              Inl err \<Rightarrow> setItem (local_key entityName) content w
            | Inr encoded \<Rightarrow>
                (case createOrUpdateFileContents (data_path entityName) content
                        (shaCache w entityName) w of
                   (Ok sha, w1) \<Rightarrow> w1\<lparr>shaCache := (shaCache w1)(entityName \<mapsto> sha)\<rparr>
                 | (Status409, w1) \<Rightarrow>
                     (case getContent (data_path entityName) w1 of
                        (Ok (b, sha), w2) \<Rightarrow>
                          (let w3 = w2\<lparr>shaCache := (shaCache w2)(entityName \<mapsto> sha)\<rparr>
                           in case createOrUpdateFileContents (data_path entityName) content
                                   (shaCache w3 entityName) w3 of
                                (Ok sha', w4) \<Rightarrow>
                                  w4\<lparr>shaCache := (shaCache w4)(entityName \<mapsto> sha')\<rparr>
                              | (_, w4) \<Rightarrow> setItem (local_key entityName) content w4)
                      | (_, w2) \<Rightarrow> setItem (local_key entityName) content w2)
                 | (_, w1) \<Rightarrow> setItem (local_key entityName) content w1))
         else setItem (local_key entityName) content w)"

text \<open>
  \<open>getCurrentUser\<close>: the session identity in localStorage (\<open>None\<close> when the entry
  is missing, empty or unreadable); every failure gives the anonymous identity.
\<close>

definition getCurrentUser :: "world \<Rightarrow> json \<times> json" where
  "getCurrentUser w =
     (case pricepilot_user w of
        None \<Rightarrow> (JStr ''anonymous'', JStr ''Anonymous'')
      | Some user \<Rightarrow>
          (case (get_prop user ''id'', get_prop user ''full_name'', get_prop user ''name'') of
             (Inr uid, Inr full_name, Inr name) \<Rightarrow>
               (js_or uid (JStr ''anonymous''), js_or full_name (js_or name (JStr ''Anonymous'')))
           | _ \<Rightarrow> (JStr ''anonymous'', JStr ''Anonymous'')))"

definition Date_toISOString :: "world \<Rightarrow> string \<times> world" where
  "Date_toISOString w = (clock w (ticks w), w\<lparr>ticks := Suc (ticks w)\<rparr>)"

definition Math_random_toString36 :: "world \<Rightarrow> string \<times> world" where
  "Math_random_toString36 w = (random w (draws w), w\<lparr>draws := Suc (draws w)\<rparr>)"

definition substr :: "string \<Rightarrow> nat \<Rightarrow> nat \<Rightarrow> string" where
  "substr s start len = take len (drop start s)"

section \<open>The entity client\<close>



definition id_matches :: "json \<Rightarrow> obj \<Rightarrow> bool" where
  "id_matches ident item = (js_String (obj_get item ''id'') = js_String ident)"




definition get_item :: "string \<Rightarrow> json \<Rightarrow> world \<Rightarrow> (error + json) \<times> world" where
  "get_item entityName ident w =
     (case getStorage entityName w of
        (Inl err, w1) \<Rightarrow> (Inl err, w1)
      | (Inr data, w1) \<Rightarrow>
          (case find (id_matches ident) data of
             None \<Rightarrow> (Inr JUndefined, w1)
           | Some item \<Rightarrow> (Inr (JObj item), w1)))"

text \<open>The record \<open>create\<close> builds: the payload, then the system fields over it.\<close>

definition new_item :: "obj \<Rightarrow> string \<Rightarrow> string \<Rightarrow> string \<Rightarrow> json \<Rightarrow> json \<Rightarrow> obj" where
  "new_item data rnd created updated finalUserId finalUserName =
     obj_assign data
       [(''id'', JStr (substr rnd 2 9)),
        (''created_date'', JStr created),
        (''created_by'', finalUserId),
        (''created_by_name'', finalUserName),
        (''updated_date'', JStr updated),
        (''updated_by'', finalUserId),
        (''updated_by_name'', finalUserName),
        (''likes'', JArr []),
        (''dislikes'', JArr []),
        (''edit_history'', JArr [])]"

text \<open>
  \<open>create\<close> suspends at \<^verbatim>\<open>await getStorage\<close>; \<open>create_on\<close> is what it does
  once the read has answered \<open>items\<close>.
\<close>

definition create_on ::
  "string \<Rightarrow> obj \<Rightarrow> json \<Rightarrow> obj list \<Rightarrow> world \<Rightarrow> json \<times> world" where
  "create_on entityName data userId items w1 =
     (let user = getCurrentUser w1;
          finalUserId = js_or userId (fst user);
          finalUserName = snd user;
          (rnd, w2) = Math_random_toString36 w1;
          (created, w3) = Date_toISOString w2;
          (updated, w4) = Date_toISOString w3;
          newItem = new_item data rnd created updated finalUserId finalUserName
      in (JObj newItem, setStorage entityName (items @ [newItem]) w4))"

definition create :: "string \<Rightarrow> obj \<Rightarrow> json \<Rightarrow> world \<Rightarrow> (error + json) \<times> world" where
  "create entityName data userId w =
     (case getStorage entityName w of
        (Inl err, w1) \<Rightarrow> (Inl err, w1)
      | (Inr items, w1) \<Rightarrow>
          (case create_on entityName data userId items w1 of
             (newItem, w5) \<Rightarrow> (Inr newItem, w5)))"

text \<open>The field-level diff of \<open>update\<close>, in the order of the payload's keys.\<close>

definition field_changed :: "obj \<Rightarrow> obj \<Rightarrow> string \<Rightarrow> bool" where
  "field_changed oldItem data key =
     (key \<noteq> ''edit_history'' \<and>
      JSON_stringify (obj_get oldItem key) \<noteq> JSON_stringify (obj_get data key))"

definition change_entry :: "obj \<Rightarrow> obj \<Rightarrow> string \<Rightarrow> json" where
  "change_entry oldItem data key =
     JObj [(''field'', JStr key), (''old'', obj_get oldItem key), (''new'', obj_get data key)]"

definition changes_of :: "obj \<Rightarrow> obj \<Rightarrow> json list" where
  "changes_of oldItem data =
     map (change_entry oldItem data) (filter (field_changed oldItem data) (Object_keys data))"

definition history_entry :: "string \<Rightarrow> json \<Rightarrow> json \<Rightarrow> json list \<Rightarrow> json" where
  "history_entry timestamp currentUserId currentUserName changes =
     JObj [(''timestamp'', JStr timestamp),
           (''user_id'', currentUserId),
           (''user_name'', currentUserName),
           (''changes'', JArr changes)]"

definition merged_item :: "obj \<Rightarrow> obj \<Rightarrow> string \<Rightarrow> json \<Rightarrow> json \<Rightarrow> json list \<Rightarrow> obj" where
  "merged_item oldItem data updated currentUserId currentUserName history =
     obj_assign (obj_assign oldItem data)
       [(''updated_date'', JStr updated),
        (''updated_by'', currentUserId),
        (''updated_by_name'', currentUserName),
        (''edit_history'', JArr history)]"

definition update ::
  "string \<Rightarrow> json \<Rightarrow> obj \<Rightarrow> json \<Rightarrow> world \<Rightarrow> (error + json) \<times> world" where
  "update entityName ident data userId w =
     (case getStorage entityName w of
        (Inl err, w1) \<Rightarrow> (Inl err, w1)
      | (Inr items, w1) \<Rightarrow>
          (let user = getCurrentUser w1 in
           case findIndex (id_matches ident) items of
             None \<Rightarrow> (Inr JNull, w1)
           | Some index \<Rightarrow>
               (let oldItem = items ! index;
                    currentUserId = js_or userId (fst user);
                    currentUserName = snd user;
                    changes = changes_of oldItem data
                in if changes \<noteq> [] then
                     (let (timestamp, w2) = Date_toISOString w1;
                          historyEntry =
                            history_entry timestamp currentUserId currentUserName changes;
                          (updated, w3) = Date_toISOString w2
                      in case spread_array (js_or (obj_get oldItem ''edit_history'') (JArr [])) of
                           Inl err \<Rightarrow> (Inl err, w3)
                         | Inr history \<Rightarrow>
                             (let newItem = merged_item oldItem data updated currentUserId
                                              currentUserName (history @ [historyEntry])
                              in (Inr (JObj newItem),
                                  setStorage entityName (items[index := newItem]) w3)))
                   else (Inr (JObj (items ! index)), w1))))"

definition delete :: "string \<Rightarrow> json \<Rightarrow> world \<Rightarrow> (error + bool) \<times> world" where
  "delete entityName ident w =
     (case getStorage entityName w of
        (Inl err, w1) \<Rightarrow> (Inl err, w1)
      | (Inr items, w1) \<Rightarrow>
          (let filtered = filter (\<lambda>item. \<not> id_matches ident item) items
           in (Inr True, setStorage entityName filtered w1)))"

text \<open>
  The two toggles share their text up to the roles of the two arrays. \<open>init_reactions\<close>
  is \<^verbatim>\<open>if (!item.likes) item.likes = []; if (!item.dislikes) item.dislikes = [];\<close>
  and \<open>toggle_in\<close> the rest, on the array \<open>mine\<close> the call toggles and the array
  \<open>other\<close> it clears the actor from. Calling \<^verbatim>\<open>indexOf\<close>, \<^verbatim>\<open>push\<close> or
  \<^verbatim>\<open>splice\<close> on a value that has no such method throws.
\<close>

definition init_reactions :: "obj \<Rightarrow> obj" where
  "init_reactions item =
     (let item1 = (if \<not> truthy (obj_get item ''likes'')
                   then obj_set item ''likes'' (JArr []) else item)
      in if \<not> truthy (obj_get item1 ''dislikes'')
         then obj_set item1 ''dislikes'' (JArr []) else item1)"

definition toggle_in :: "string \<Rightarrow> string \<Rightarrow> obj \<Rightarrow> json \<Rightarrow> error + obj" where
  "toggle_in mine other item userId =
     (case obj_get item mine of
        JArr xs \<Rightarrow>
          (case indexOf xs userId of
             Some i \<Rightarrow> Inr (obj_set item mine (JArr (splice1 xs i)))
           | None \<Rightarrow>
               (let item' = obj_set item mine (JArr (xs @ [userId]))
                in case obj_get item' other of
                     JArr ys \<Rightarrow>
                       (case indexOf ys userId of
                          Some j \<Rightarrow> Inr (obj_set item' other (JArr (splice1 ys j)))
                        | None \<Rightarrow> Inr item')
                   | JStr s \<Rightarrow>
                       if string_includes s (js_String userId) then Inl TypeError
                       else Inr item'
                   | _ \<Rightarrow> Inl TypeError))
      | _ \<Rightarrow> Inl TypeError)"

definition toggle ::
  "string \<Rightarrow> string \<Rightarrow> string \<Rightarrow> json \<Rightarrow> json \<Rightarrow> world \<Rightarrow> (error + json) \<times> world" where
  "toggle mine other entityName ident userId w =
     (case getStorage entityName w of
        (Inl err, w1) \<Rightarrow> (Inl err, w1)
      | (Inr items, w1) \<Rightarrow>
          (case findIndex (id_matches ident) items of
             None \<Rightarrow> (Inr JNull, w1)
           | Some index \<Rightarrow>
               (case toggle_in mine other (init_reactions (items ! index)) userId of
                  Inl err \<Rightarrow> (Inl err, w1)
                | Inr item \<Rightarrow>
                    (Inr (JObj item), setStorage entityName (items[index := item]) w1))))"

definition toggleLike :: "string \<Rightarrow> json \<Rightarrow> json \<Rightarrow> world \<Rightarrow> (error + json) \<times> world" where
  "toggleLike = toggle ''likes'' ''dislikes''"

definition toggleDislike :: "string \<Rightarrow> json \<Rightarrow> json \<Rightarrow> world \<Rightarrow> (error + json) \<times> world" where
  "toggleDislike = toggle ''dislikes'' ''likes''"

section \<open>Notions the properties are stated with\<close>

text \<open>
  The text of a collection is in one of the two stores: every path of \<open>setStorage\<close>
  ends with a successful remote write or with \<^verbatim>\<open>localStorage.setItem\<close>.
\<close>

definition persisted :: "string \<Rightarrow> obj list \<Rightarrow> world \<Rightarrow> bool" where
  "persisted entityName items w =
     (remote w (data_path entityName) = Some (jsonString items) \<or>
      localStorage w (local_key entityName) = Some (jsonString items))"

text \<open>The fields \<open>create\<close> assigns, in the order of its object literal.\<close>

definition system_fields :: "string list" where
  "system_fields =
     [''id'', ''created_date'', ''created_by'', ''created_by_name'',
      ''updated_date'', ''updated_by'', ''updated_by_name'',
      ''likes'', ''dislikes'', ''edit_history'']"









subsection \<open>Sample sessions\<close>

definition sha_sample :: "blob \<Rightarrow> nat" where
  "sha_sample b = (case b of Collection items \<Rightarrow> Suc (length items) | _ \<Rightarrow> 0)"

definition milk :: obj where
  "milk = [(''id'', JStr ''p1''), (''name'', JStr ''Milk''), (''price'', JNum 3),
           (''likes'', JArr [JStr ''u2'']), (''dislikes'', JArr []),
           (''edit_history'', JArr [])]"

definition ann :: json where
  "ann = JObj [(''id'', JStr ''u1''), (''full_name'', JStr ''Ann'')]"

text \<open>A session without GitHub configuration, holding one product in localStorage.\<close>

definition local_session :: world where
  "local_session =
     \<lparr>github = False, sha_of = sha_sample, remote = Map.empty, faults = [],
      shaCache = Map.empty,
      localStorage = [local_key ''Product'' \<mapsto> Collection [milk]],
      pricepilot_user = Some ann,
      clock = (\<lambda>n. if n = 0 then ''2024-05-01T10:00:00.000Z'' else ''2024-05-01T10:00:00.001Z''),
      ticks = 0,
      random = (\<lambda>n. ''0.4fzyo82mvyr''),
      draws = 0\<rparr>"

text \<open>A session with GitHub configured and reachable, the product file in the repository.\<close>

definition github_session :: world where
  "github_session =
     \<lparr>github = True, sha_of = sha_sample,
      remote = [data_path ''Product'' \<mapsto> Collection [milk]], faults = [],
      shaCache = Map.empty, localStorage = Map.empty,
      pricepilot_user = Some ann,
      clock = (\<lambda>n. if n = 0 then ''2024-05-01T10:00:00.000Z'' else ''2024-05-01T10:00:00.001Z''),
      ticks = 0,
      random = (\<lambda>n. ''0.4fzyo82mvyr''),
      draws = 0\<rparr>"





text \<open>
  A session whose next random number is one half, \<^verbatim>\<open>(0.5).toString(36)\<close> being
  \<^verbatim>\<open>"0.i"\<close>, and whose collection has a record of id \<^verbatim>\<open>"i"\<close>.
\<close>

definition salt :: obj where
  "salt = [(''id'', JStr ''i''), (''name'', JStr ''Salt'')]"

definition half_session :: world where
  "half_session =
     local_session\<lparr>localStorage := [local_key ''Product'' \<mapsto> Collection [salt]],
                    random := (\<lambda>n. ''0.i'')\<rparr>"



definition null_session :: world where
  "null_session = local_session\<lparr>localStorage := [local_key ''Product'' \<mapsto> JsonNull]\<rparr>"





text \<open>
  Two writers on one repository. Writer A is \<open>github_session\<close>; writer B is another
  session on the same repository. \<open>stale_b\<close> is writer B suspended after the read of
  its \<open>create\<close>, the repository being what the \<open>create\<close> of writer A has left
  in the meantime.
\<close>

definition bob :: json where
  "bob = JObj [(''id'', JStr ''u2''), (''name'', JStr ''Bob'')]"

definition writer_b :: world where
  "writer_b = github_session\<lparr>pricepilot_user := Some bob, random := (\<lambda>n. ''0.9x8c7v6b5n4'')\<rparr>"

definition stale_b :: world where
  "stale_b =
     (snd (getStorage ''Product'' writer_b))
       \<lparr>remote := remote (snd (create ''Product'' [(''name'', JStr ''Tea'')] JNull
                                  github_session))\<rparr>"

definition tea :: obj where
  "tea = [(''name'', JStr ''Tea''), (''id'', JStr ''4fzyo82mv''),
          (''created_date'', JStr ''2024-05-01T10:00:00.000Z''),
          (''created_by'', JStr ''u1''), (''created_by_name'', JStr ''Ann''),
          (''updated_date'', JStr ''2024-05-01T10:00:00.001Z''),
          (''updated_by'', JStr ''u1''), (''updated_by_name'', JStr ''Ann''),
          (''likes'', JArr []), (''dislikes'', JArr []), (''edit_history'', JArr [])]"

definition soap :: obj where
  "soap = [(''name'', JStr ''Soap''), (''id'', JStr ''9x8c7v6b5''),
           (''created_date'', JStr ''2024-05-01T10:00:00.000Z''),
           (''created_by'', JStr ''u2''), (''created_by_name'', JStr ''Bob''),
           (''updated_date'', JStr ''2024-05-01T10:00:00.001Z''),
           (''updated_by'', JStr ''u2''), (''updated_by_name'', JStr ''Bob''),
           (''likes'', JArr []), (''dislikes'', JArr []), (''edit_history'', JArr [])]"

section \<open>Percent escapes\<close>

lemma hex_upper_digit: "d < 16 \<Longrightarrow> hexDigit (hex_upper d)"
  by (auto simp: hexDigit_def hex_upper_def)

lemma hex_upper_value: "d < 16 \<Longrightarrow> hexValue (hex_upper d) = d"
  by (auto simp: hexValue_def hex_upper_def)

lemma hex_upper_not_u: "d < 16 \<Longrightarrow> hex_upper d \<noteq> 0x75"
  by (auto simp: hex_upper_def)

declare unescape.simps(2) [simp del]

lemma unescape_percent:
  assumes "octet < 256"
  shows "unescape (percent octet @ rest) = octet # unescape rest"
proof -
  let ?h = "hex_upper (octet div 16)" and ?l = "hex_upper (octet mod 16)"
  have d: "octet div 16 < 16" "octet mod 16 < 16"
    using assms by simp_all
  have not_u: "?h \<noteq> 0x75"
    by (rule hex_upper_not_u[OF d(1)])
  have digits: "hexDigit ?h" "hexDigit ?l"
    by (simp_all add: hex_upper_digit d)
  have number: "hexNumber [?h, ?l] = octet"
    by (simp add: hexNumber_def hex_upper_value d)
  have "unescape (0x25 # ?h # ?l # rest) = octet # unescape rest"
    by (subst unescape.simps) (simp add: not_u digits number)
  then show ?thesis
    by (simp add: percent_def)
qed

lemma unescape_percents:
  "list_all (\<lambda>octet. octet < 256) octets \<Longrightarrow>
   unescape (concat (map percent octets) @ rest) = octets @ unescape rest"
  by (induction octets) (simp_all add: unescape_percent)

lemma unescape_plain: "c \<noteq> 0x25 \<Longrightarrow> unescape (c # rest) = c # unescape rest"
  by (subst unescape.simps) simp

lemma unreserved_ascii: "uriUnreserved c \<Longrightarrow> c \<noteq> 0x25 \<and> c < 0x80"
  by (auto simp: uriUnreserved_def)

section \<open>UTF-8 octets\<close>

lemma utf8_octets_bytes: "cp < 0x110000 \<Longrightarrow> list_all (\<lambda>octet. octet < 256) (utf8_octets cp)"
  by (simp add: utf8_octets_def) arith

lemma pair_code_point_range:
  assumes "is_lead c" and "is_trail d"
  shows "0x10000 \<le> pair_code_point c d \<and> pair_code_point c d < 0x110000"
proof -
  have "c - 0xD800 \<le> 0x3FF" and "d - 0xDC00 \<le> 0x3FF"
    using assms unfolding is_lead_def is_trail_def by arith+
  then have "(c - 0xD800) * 0x400 + (d - 0xDC00) \<le> 0x3FF * 0x400 + 0x3FF"
    by (intro add_mono mult_le_mono1)
  then show ?thesis
    by (simp add: pair_code_point_def)
qed

lemma pair_scalar: "is_lead c \<Longrightarrow> is_trail d \<Longrightarrow> scalar (pair_code_point c d)"
  using pair_code_point_range[of c d] by (simp add: scalar_def)

lemma unit_scalar: "c < 65536 \<Longrightarrow> \<not> is_lead c \<Longrightarrow> \<not> is_trail c \<Longrightarrow> scalar c"
  by (auto simp: scalar_def is_lead_def is_trail_def)

section \<open>encodeURIComponent followed by unescape\<close>

lemma escaped_octets:
  assumes "well_formed s" and "list_all (\<lambda>c. c < 65536) s"
  shows "\<exists>escaped. encodeURIComponent s = Inr escaped \<and>
           unescape escaped = concat (map utf8_octets (code_points s))"
proof -
  have "\<exists>escaped. encodeURIComponent s = Inr escaped \<and>
          (\<forall>rest. unescape (escaped @ rest) =
                   concat (map utf8_octets (code_points s)) @ unescape rest)"
    using assms
  proof (induction s rule: well_formed.induct)
    case 1
    show ?case by simp
  next
    case (2 c cs)
    show ?case
    proof (cases "is_lead c")
      case True
      with "2.prems"(1) obtain d ds where cs: "cs = d # ds" and d: "is_trail d"
        and wf: "well_formed ds"
        by (cases cs) auto
      from "2.prems"(2) cs have small: "list_all (\<lambda>c. c < 65536) ds" by simp
      from "2.IH"(1)[OF True cs wf small] d obtain escaped where
        e: "encodeURIComponent ds = Inr escaped"
        and u: "\<And>rest. unescape (escaped @ rest) =
                   concat (map utf8_octets (code_points ds)) @ unescape rest"
        by auto
      let ?octets = "utf8_octets (pair_code_point c d)"
      have nu: "\<not> uriUnreserved c" and nt: "\<not> is_trail c"
        using True by (auto simp: uriUnreserved_def is_lead_def is_trail_def)
      have bytes: "list_all (\<lambda>octet. octet < 256) ?octets"
        using pair_code_point_range[OF True d] by (intro utf8_octets_bytes) simp
      have enc: "encodeURIComponent (c # cs) = Inr (concat (map percent ?octets) @ escaped)"
        using True cs d nu nt e by (simp add: prepend_def)
      have "unescape ((concat (map percent ?octets) @ escaped) @ rest) =
            concat (map utf8_octets (code_points (c # cs))) @ unescape rest" for rest
        using True cs by (simp add: unescape_percents[OF bytes] u)
      with enc show ?thesis by blast
    next
      case False
      with "2.prems"(1) have nt: "\<not> is_trail c" and wf: "well_formed cs"
        by simp_all
      from "2.prems"(2) have c: "c < 65536" and small: "list_all (\<lambda>c. c < 65536) cs"
        by simp_all
      from "2.IH"(2)[OF False wf small] obtain escaped where
        e: "encodeURIComponent cs = Inr escaped"
        and u: "\<And>rest. unescape (escaped @ rest) =
                   concat (map utf8_octets (code_points cs)) @ unescape rest"
        by auto
      show ?thesis
      proof (cases "uriUnreserved c")
        case True
        then have plain: "c \<noteq> 0x25" and ascii: "utf8_octets c = [c]"
          using unreserved_ascii[of c] by (simp_all add: utf8_octets_def)
        have enc: "encodeURIComponent (c # cs) = Inr ([c] @ escaped)"
          using True e by (simp add: prepend_def)
        have "unescape (([c] @ escaped) @ rest) =
              concat (map utf8_octets (code_points (c # cs))) @ unescape rest" for rest
          using False by (simp add: unescape_plain[OF plain] u ascii)
        with enc show ?thesis by blast
      next
        case unreserved: False
        have bytes: "list_all (\<lambda>octet. octet < 256) (utf8_octets c)"
          using c by (intro utf8_octets_bytes) simp
        have enc: "encodeURIComponent (c # cs) =
            Inr (concat (map percent (utf8_octets c)) @ escaped)"
          using False unreserved nt e by (simp add: prepend_def)
        have "unescape ((concat (map percent (utf8_octets c)) @ escaped) @ rest) =
              concat (map utf8_octets (code_points (c # cs))) @ unescape rest" for rest
          using False by (simp add: unescape_percents[OF bytes] u)
        with enc show ?thesis by blast
      qed
    qed
  qed
  then obtain escaped where "encodeURIComponent s = Inr escaped"
    and "unescape (escaped @ []) = concat (map utf8_octets (code_points s)) @ unescape []"
    by blast
  then show ?thesis by simp
qed

lemma code_points_scalar:
  "well_formed s \<Longrightarrow> list_all (\<lambda>c. c < 65536) s \<Longrightarrow> list_all scalar (code_points s)"
proof (induction s rule: well_formed.induct)
  case 1
  show ?case by simp
next
  case (2 c cs)
  show ?case
  proof (cases "is_lead c")
    case True
    with "2.prems"(1) obtain d ds where cs: "cs = d # ds" and d: "is_trail d"
      and wf: "well_formed ds"
      by (cases cs) auto
    from "2.prems"(2) cs have "list_all (\<lambda>c. c < 65536) ds" by simp
    from "2.IH"(1)[OF True cs wf this] d True cs show ?thesis
      by (simp add: pair_scalar)
  next
    case False
    with 2 show ?thesis by (simp add: unit_scalar)
  qed
qed

section \<open>The units of the code points\<close>

lemma utf16_units_pair:
  assumes "is_lead c" and "is_trail d"
  shows "utf16_units (pair_code_point c d) = [c, d]"
proof -
  define x where "x = c - 0xD800"
  define y where "y = d - 0xDC00"
  have c: "c = 0xD800 + x" and d: "d = 0xDC00 + y" and y: "y < 0x400"
    using assms unfolding x_def y_def is_lead_def is_trail_def by arith+
  have p: "pair_code_point c d = x * 0x400 + y + 0x10000"
    by (simp add: pair_code_point_def x_def y_def)
  have "(x * 0x400 + y) div 0x400 = x" "(x * 0x400 + y) mod 0x400 = y"
    using y by simp_all
  then have "utf16_units (x * 0x400 + y + 0x10000) = [0xD800 + x, 0xDC00 + y]"
    by (simp add: utf16_units_def)
  then show ?thesis
    unfolding p using c d by simp
qed

lemma units_of_code_points:
  "well_formed s \<Longrightarrow> list_all (\<lambda>c. c < 65536) s \<Longrightarrow>
   concat (map utf16_units (code_points s)) = s"
proof (induction s rule: well_formed.induct)
  case 1
  show ?case by simp
next
  case (2 c cs)
  show ?case
  proof (cases "is_lead c")
    case True
    with "2.prems"(1) obtain d ds where cs: "cs = d # ds" and d: "is_trail d"
      and wf: "well_formed ds"
      by (cases cs) auto
    from "2.prems"(2) cs have "list_all (\<lambda>c. c < 65536) ds" by simp
    from "2.IH"(1)[OF True cs wf this] d True cs show ?thesis
      by (simp add: utf16_units_pair)
  next
    case False
    with 2 show ?thesis by (simp add: utf16_units_def)
  qed
qed

lemma no_bom:
  assumes "take 1 s \<noteq> [0xFEFF]"
  shows "strip_bom (code_points s) = code_points s"
proof (cases s)
  case Nil
  then show ?thesis by simp
next
  case (Cons c cs)
  with assms have c: "c \<noteq> 0xFEFF" by simp
  show ?thesis
  proof (cases "is_lead c")
    case True
    show ?thesis
    proof (cases cs)
      case Nil
      with Cons True c show ?thesis by simp
    next
      case (Cons d ds)
      have "0x10000 \<le> pair_code_point c d"
        by (simp add: pair_code_point_def)
      then have "pair_code_point c d \<noteq> 0xFEFF" by simp
      with \<open>s = c # cs\<close> Cons True show ?thesis by simp
    qed
  next
    case False
    with Cons c show ?thesis by simp
  qed
qed

section \<open>The decoder on the octets of a scalar value\<close>

declare utf8_decode.simps(2) [simp del]

text \<open>One byte read from the initial state, and one continuation byte that fits.\<close>

lemma decode_ascii:
  "b \<le> 0x7F \<Longrightarrow> utf8_decode cp seen 0 lower upper (b # bs) = b # utf8_decode 0 0 0 0x80 0xBF bs"
  by (subst utf8_decode.simps) simp

lemma decode_lead2:
  "0xC2 \<le> b \<Longrightarrow> b \<le> 0xDF \<Longrightarrow>
   utf8_decode cp seen 0 lower upper (b # bs) = utf8_decode (b mod 32) 0 1 0x80 0xBF bs"
  by (subst utf8_decode.simps) simp

lemma decode_lead3:
  "0xE0 \<le> b \<Longrightarrow> b \<le> 0xEF \<Longrightarrow>
   utf8_decode cp seen 0 lower upper (b # bs) =
     utf8_decode (b mod 16) 0 2 (if b = 0xE0 then 0xA0 else 0x80)
       (if b = 0xED then 0x9F else 0xBF) bs"
  by (subst utf8_decode.simps) simp

lemma decode_lead4:
  "0xF0 \<le> b \<Longrightarrow> b \<le> 0xF4 \<Longrightarrow>
   utf8_decode cp seen 0 lower upper (b # bs) =
     utf8_decode (b mod 8) 0 3 (if b = 0xF0 then 0x90 else 0x80)
       (if b = 0xF4 then 0x8F else 0xBF) bs"
  by (subst utf8_decode.simps) simp

lemma decode_middle:
  "needed \<noteq> 0 \<Longrightarrow> lower \<le> b \<Longrightarrow> b \<le> upper \<Longrightarrow> Suc seen \<noteq> needed \<Longrightarrow>
   utf8_decode cp seen needed lower upper (b # bs) =
     utf8_decode (cp * 64 + b mod 64) (Suc seen) needed 0x80 0xBF bs"
  by (subst utf8_decode.simps) simp

lemma decode_last:
  "needed \<noteq> 0 \<Longrightarrow> lower \<le> b \<Longrightarrow> b \<le> upper \<Longrightarrow> Suc seen = needed \<Longrightarrow>
   utf8_decode cp seen needed lower upper (b # bs) =
     (cp * 64 + b mod 64) # utf8_decode 0 0 0 0x80 0xBF bs"
  by (subst utf8_decode.simps) simp

text \<open>Reading a number in base 64, and a tagged byte.\<close>

lemma split64: "\<exists>q r. (n::nat) = q * 64 + r \<and> r < 64 \<and> q = n div 64 \<and> r = n mod 64"
  by simp

lemma tagged_mod:
  "(r::nat) < 64 \<Longrightarrow> (0x80 + r) mod 64 = r"
  "(a::nat) < 32 \<Longrightarrow> (0xC0 + a) mod 32 = a"
  "a < 16 \<Longrightarrow> (0xE0 + a) mod 16 = a"
  "a < 8 \<Longrightarrow> (0xF0 + a) mod 8 = a"
proof -
  have "(2 * 64 + r) mod 64 = r mod 64" by (rule mod_mult_self3)
  then show "r < 64 \<Longrightarrow> (0x80 + r) mod 64 = r" by simp
  have "(6 * 32 + a) mod 32 = a mod 32" by (rule mod_mult_self3)
  then show "a < 32 \<Longrightarrow> (0xC0 + a) mod 32 = a" by simp
  have "(14 * 16 + a) mod 16 = a mod 16" by (rule mod_mult_self3)
  then show "a < 16 \<Longrightarrow> (0xE0 + a) mod 16 = a" by simp
  have "(30 * 8 + a) mod 8 = a mod 8" by (rule mod_mult_self3)
  then show "a < 8 \<Longrightarrow> (0xF0 + a) mod 8 = a" by simp
qed

lemma decode_two:
  assumes "2 \<le> a" and "a < 32" and "b < 64"
  shows "utf8_decode 0 0 0 0x80 0xBF ((0xC0 + a) # (0x80 + b) # rest) =
         (a * 64 + b) # utf8_decode 0 0 0 0x80 0xBF rest"
proof -
  have l: "0xC2 \<le> 0xC0 + a" "0xC0 + a \<le> 0xDF" using assms by linarith+
  have t: "(0x80::nat) \<le> 0x80 + b" "0x80 + b \<le> 0xBF" using assms by linarith+
  show ?thesis
    by (simp only: decode_lead2[OF l] decode_last[OF _ t] tagged_mod(1)[OF assms(3)]
          tagged_mod(2)[OF assms(2)])
qed

lemma decode_three:
  assumes "a < 16" and "b < 64" and "c < 64"
      and "a = 0 \<Longrightarrow> 32 \<le> b" and "a = 13 \<Longrightarrow> b < 32"
  shows "utf8_decode 0 0 0 0x80 0xBF ((0xE0 + a) # (0x80 + b) # (0x80 + c) # rest) =
         ((a * 64 + b) * 64 + c) # utf8_decode 0 0 0 0x80 0xBF rest"
proof -
  have l: "0xE0 \<le> 0xE0 + a" "0xE0 + a \<le> 0xEF" using assms(1) by linarith+
  have m: "(if 0xE0 + a = 0xE0 then 0xA0 else 0x80) \<le> 0x80 + b"
    "0x80 + b \<le> (if 0xE0 + a = 0xED then 0x9F else 0xBF)"
    using assms(2,4,5) by (auto split: if_splits)
  have t: "(0x80::nat) \<le> 0x80 + c" "0x80 + c \<le> 0xBF" using assms(3) by linarith+
  have s: "Suc 0 \<noteq> 2" "Suc (Suc 0) = 2" "(2::nat) \<noteq> 0" by simp_all
  show ?thesis
    by (simp only: decode_lead3[OF l] decode_middle[OF s(3) m s(1)]
          decode_last[OF s(3) t s(2)] tagged_mod(1)[OF assms(2)] tagged_mod(1)[OF assms(3)]
          tagged_mod(3)[OF assms(1)])
qed

lemma decode_four:
  assumes "a \<le> 4" and "b < 64" and "c < 64" and "d < 64"
      and "a = 0 \<Longrightarrow> 16 \<le> b" and "a = 4 \<Longrightarrow> b < 16"
  shows "utf8_decode 0 0 0 0x80 0xBF ((0xF0 + a) # (0x80 + b) # (0x80 + c) # (0x80 + d) # rest) =
         (((a * 64 + b) * 64 + c) * 64 + d) # utf8_decode 0 0 0 0x80 0xBF rest"
proof -
  have a8: "a < 8" using assms(1) by simp
  have l: "0xF0 \<le> 0xF0 + a" "0xF0 + a \<le> 0xF4" using assms(1) by linarith+
  have m: "(if 0xF0 + a = 0xF0 then 0x90 else 0x80) \<le> 0x80 + b"
    "0x80 + b \<le> (if 0xF0 + a = 0xF4 then 0x8F else 0xBF)"
    using assms(2,5,6) by (auto split: if_splits)
  have n: "(0x80::nat) \<le> 0x80 + c" "0x80 + c \<le> 0xBF" using assms(3) by linarith+
  have t: "(0x80::nat) \<le> 0x80 + d" "0x80 + d \<le> 0xBF" using assms(4) by linarith+
  have s: "Suc 0 \<noteq> 3" "Suc (Suc 0) \<noteq> 3" "Suc (Suc (Suc 0)) = 3" "(3::nat) \<noteq> 0"
    by simp_all
  show ?thesis
    by (simp only: decode_lead4[OF l] decode_middle[OF s(4) m s(1)]
          decode_middle[OF s(4) n s(2)] decode_last[OF s(4) t s(3)]
          tagged_mod(1)[OF assms(2)] tagged_mod(1)[OF assms(3)] tagged_mod(1)[OF assms(4)]
          tagged_mod(4)[OF a8])
qed

lemma decode_octets:
  assumes "scalar cp"
  shows "utf8_decode 0 0 0 0x80 0xBF (utf8_octets cp @ rest) =
         cp # utf8_decode 0 0 0 0x80 0xBF rest"
proof -
  obtain q1 d where cp: "cp = q1 * 64 + d" and d: "d < 64"
    and q1: "q1 = cp div 64" "d = cp mod 64"
    using split64[of cp] by blast
  obtain q2 c where q1s: "q1 = q2 * 64 + c" and c: "c < 64"
    and q2: "q2 = q1 div 64" "c = q1 mod 64"
    using split64[of q1] by blast
  obtain q3 b where q2s: "q2 = q3 * 64 + b" and b: "b < 64"
    and q3: "q3 = q2 div 64" "b = q2 mod 64"
    using split64[of q2] by blast
  have d4096: "cp div 4096 = q2" and d262144: "cp div 262144 = q3"
    using div_mult2_eq[of cp 64 64] div_mult2_eq[of cp 4096 64]
    by (simp_all add: q1(1) q2(1) q3(1))
  have range: "cp < 0x110000" and gap: "cp < 0xD800 \<or> 0xDFFF < cp"
    using assms by (auto simp: scalar_def)
  consider (one) "cp < 0x80" | (two) "0x80 \<le> cp" "cp < 0x800"
    | (three) "0x800 \<le> cp" "cp < 0x10000" | (four) "0x10000 \<le> cp"
    by linarith
  then show ?thesis
  proof cases
    case one
    then show ?thesis
      by (simp add: utf8_octets_def decode_ascii)
  next
    case two
    have o: "utf8_octets cp = [0xC0 + q1, 0x80 + d]"
      using two by (simp add: utf8_octets_def q1)
    have "2 \<le> q1" "q1 < 32" using two cp d by linarith+
    from decode_two[OF this d, of rest] cp show ?thesis
      unfolding o by simp
  next
    case three
    have o: "utf8_octets cp = [0xE0 + q2, 0x80 + c, 0x80 + d]"
      using three by (simp add: utf8_octets_def d4096 q1(1)[symmetric] q2(2) q1(2))
    have "q2 < 16" "q2 = 0 \<Longrightarrow> 32 \<le> c" "q2 = 13 \<Longrightarrow> c < 32"
      using three gap cp q1s c d by linarith+
    from decode_three[OF this(1) c d this(2,3), of rest] cp q1s show ?thesis
      unfolding o by simp
  next
    case four
    have o: "utf8_octets cp = [0xF0 + q3, 0x80 + b, 0x80 + c, 0x80 + d]"
      using four
      by (simp add: utf8_octets_def d4096 d262144 q1(1)[symmetric] q1(2) q2(2) q3(2))
    have "q3 \<le> 4" "q3 = 0 \<Longrightarrow> 16 \<le> b" "q3 = 4 \<Longrightarrow> b < 16"
      using four range cp q1s q2s b c d by linarith+
    from decode_four[OF this(1) b c d this(2,3), of rest] cp q1s q2s show ?thesis
      unfolding o by simp
  qed
qed

lemma decode_all_octets:
  "list_all scalar cps \<Longrightarrow> utf8_decode 0 0 0 0x80 0xBF (concat (map utf8_octets cps)) = cps"
  by (induction cps) (simp_all add: decode_octets)

section \<open>base64\<close>

lemma b64_char_props:
  assumes "n < 64"
  shows "b64_value (b64_char n) = n" and "is_b64 (b64_char n)"
    and "b64_char n \<noteq> 0x3D" and "\<not> ascii_whitespace (b64_char n)"
  using assms
  by (auto simp: b64_char_def b64_value_def is_b64_def ascii_whitespace_def)

lemma split_at: "0 < k \<Longrightarrow> \<exists>q r. (n::nat) = q * k + r \<and> r < k \<and> q = n div k \<and> r = n mod k"
  by simp

text \<open>The bytes of a number below \<open>2^24\<close>.\<close>

lemma bytes3:
  assumes "(b::nat) < 256" and "c < 256"
  shows "((a * 256 + b) * 256 + c) div 65536 = a"
    and "((a * 256 + b) * 256 + c) div 256 mod 256 = b"
    and "((a * 256 + b) * 256 + c) mod 256 = c"
proof -
  have d: "((a * 256 + b) * 256 + c) div 256 = a * 256 + b"
    using assms(2) by simp
  have "((a * 256 + b) * 256 + c) div 65536 = ((a * 256 + b) * 256 + c) div 256 div 256"
    using div_mult2_eq[of "(a * 256 + b) * 256 + c" 256 256] by simp
  then show "((a * 256 + b) * 256 + c) div 65536 = a"
    unfolding d using assms(1) by simp
  show "((a * 256 + b) * 256 + c) div 256 mod 256 = b"
    unfolding d using assms(1) by simp
  have "((a * 256 + b) * 256 + c) mod 256 = c mod 256"
    by (rule mod_mult_self3)
  then show "((a * 256 + b) * 256 + c) mod 256 = c"
    using assms(2) by simp
qed

text \<open>Groups of sextets, written with the digits of the bytes.\<close>

lemma decode_digits3:
  assumes "a1 < 64" "a0 < 4" "b1 < 16" "b0 < 16" "c1 < 4" "c0 < 64"
  shows "base64_decode (b64_char a1 # b64_char (a0 * 16 + b1) # b64_char (b0 * 4 + c1) #
           b64_char c0 # rest) =
         (a1 * 4 + a0) # (b1 * 16 + b0) # (c1 * 64 + c0) # base64_decode rest"
proof -
  have s: "a0 * 16 + b1 < 64" "b0 * 4 + c1 < 64"
    using assms by linarith+
  have b: "b1 * 16 + b0 < 256" "c1 * 64 + c0 < 256"
    using assms by linarith+
  have n: "((a1 * 64 + (a0 * 16 + b1)) * 64 + (b0 * 4 + c1)) * 64 + c0 =
           ((a1 * 4 + a0) * 256 + (b1 * 16 + b0)) * 256 + (c1 * 64 + c0)"
    by (simp add: algebra_simps)
  show ?thesis
    by (simp only: base64_decode.simps Let_def b64_char_props(1)[OF assms(1)]
          b64_char_props(1)[OF s(1)] b64_char_props(1)[OF s(2)] b64_char_props(1)[OF assms(6)]
          n bytes3[OF b] append_Cons append_Nil)
qed

lemma decode_digits2:
  assumes "a1 < 64" "a0 < 4" "b1 < 16" "b0 < 16"
  shows "base64_decode [b64_char a1, b64_char (a0 * 16 + b1), b64_char (b0 * 4)] =
         [a1 * 4 + a0, b1 * 16 + b0]"
proof -
  have s: "a0 * 16 + b1 < 64" "b0 * 4 < 64"
    using assms by linarith+
  have b: "b1 * 16 + b0 < 256" using assms by linarith
  have n: "(a1 * 64 + (a0 * 16 + b1)) * 64 + b0 * 4 = ((a1 * 4 + a0) * 256 + (b1 * 16 + b0)) * 4"
    by (simp add: algebra_simps)
  have hi: "((a1 * 4 + a0) * 256 + (b1 * 16 + b0)) * 4 div 1024 = a1 * 4 + a0"
    using div_mult2_eq[of "((a1 * 4 + a0) * 256 + (b1 * 16 + b0)) * 4" 4 256] b by simp
  have "((a1 * 4 + a0) * 256 + (b1 * 16 + b0)) mod 256 = (b1 * 16 + b0) mod 256"
    by (rule mod_mult_self3)
  then have lo: "((a1 * 4 + a0) * 256 + (b1 * 16 + b0)) * 4 div 4 mod 256 = b1 * 16 + b0"
    using b by (simp only: nonzero_mult_div_cancel_right mod_less)
  show ?thesis
    by (simp only: base64_decode.simps Let_def b64_char_props(1)[OF assms(1)]
          b64_char_props(1)[OF s(1)] b64_char_props(1)[OF s(2)] n hi lo)
qed

lemma decode_digits1:
  assumes "a1 < 64" "a0 < 4"
  shows "base64_decode [b64_char a1, b64_char (a0 * 16)] = [a1 * 4 + a0]"
proof -
  have s: "a0 * 16 < 64" using assms by linarith
  have n: "a1 * 64 + a0 * 16 = (a1 * 4 + a0) * 16"
    by (simp add: algebra_simps)
  show ?thesis
    by (simp only: base64_decode.simps Let_def b64_char_props(1)[OF assms(1)]
          b64_char_props(1)[OF s] n nonzero_mult_div_cancel_right)
qed

text \<open>The bytes as digits: every byte list is encoded from such digits.\<close>

lemma byte_digits:
  assumes "(a::nat) < 256"
  shows "a div 4 < 64" "a mod 4 < 4" "a div 16 < 16" "a mod 16 < 16" "a div 64 < 4" "a mod 64 < 64"
    "a div 4 * 4 + a mod 4 = a" "a div 16 * 16 + a mod 16 = a" "a div 64 * 64 + a mod 64 = a"
  using assms by (simp_all add: div_less_iff_less_mult)

lemma decode_body: "list_all (\<lambda>c. c < 256) bs \<Longrightarrow> base64_decode (b64_body bs) = bs"
proof (induction bs rule: b64_body.induct)
  case (1 a b c rest)
  then have a: "a < 256" and b: "b < 256" and c: "c < 256"
    and rest: "base64_decode (b64_body rest) = rest"
    by simp_all
  have "base64_decode (b64_char (a div 4) # b64_char (a mod 4 * 16 + b div 16) #
           b64_char (b mod 16 * 4 + c div 64) # b64_char (c mod 64) # b64_body rest) =
         (a div 4 * 4 + a mod 4) # (b div 16 * 16 + b mod 16) # (c div 64 * 64 + c mod 64) #
           base64_decode (b64_body rest)"
    by (rule decode_digits3)
       (simp_all add: byte_digits(1,2)[OF a] byte_digits(3,4)[OF b] byte_digits(5,6)[OF c])
  then show ?case
    by (simp only: b64_body.simps append_Cons append_Nil rest byte_digits(7)[OF a]
          byte_digits(8)[OF b] byte_digits(9)[OF c])
next
  case (2 a b)
  then have a: "a < 256" and b: "b < 256" by simp_all
  have "base64_decode [b64_char (a div 4), b64_char (a mod 4 * 16 + b div 16),
           b64_char (b mod 16 * 4)] = [a div 4 * 4 + a mod 4, b div 16 * 16 + b mod 16]"
    by (rule decode_digits2) (simp_all add: byte_digits(1,2)[OF a] byte_digits(3,4)[OF b])
  then show ?case
    by (simp only: b64_body.simps byte_digits(7)[OF a] byte_digits(8)[OF b])
next
  case (3 a)
  then have a: "a < 256" by simp
  have "base64_decode [b64_char (a div 4), b64_char (a mod 4 * 16)] = [a div 4 * 4 + a mod 4]"
    by (rule decode_digits1) (simp_all add: byte_digits(1,2)[OF a])
  then show ?case
    by (simp only: b64_body.simps byte_digits(7)[OF a])
next
  case 4
  show ?case by simp
qed

lemma b64_body_chars:
  "list_all (\<lambda>c. c < 256) bs \<Longrightarrow>
   list_all (\<lambda>c. is_b64 c \<and> c \<noteq> 0x3D \<and> \<not> ascii_whitespace c) (b64_body bs)"
proof (induction bs rule: b64_body.induct)
  case (1 a b c rest)
  then have a: "a < 256" and b: "b < 256" and c: "c < 256"
    and rest: "list_all (\<lambda>c. is_b64 c \<and> c \<noteq> 0x3D \<and> \<not> ascii_whitespace c) (b64_body rest)"
    by simp_all
  have s: "a div 4 < 64" "a mod 4 * 16 + b div 16 < 64" "b mod 16 * 4 + c div 64 < 64"
    "c mod 64 < 64"
    using byte_digits(1,2)[OF a] byte_digits(3,4)[OF b] byte_digits(5,6)[OF c] by linarith+
  show ?case
    using rest by (simp add: b64_char_props(2,3,4)[OF s(1)] b64_char_props(2,3,4)[OF s(2)]
          b64_char_props(2,3,4)[OF s(3)] b64_char_props(2,3,4)[OF s(4)])
next
  case (2 a b)
  then have a: "a < 256" and b: "b < 256" by simp_all
  have s: "a div 4 < 64" "a mod 4 * 16 + b div 16 < 64" "b mod 16 * 4 < 64"
    using byte_digits(1,2)[OF a] byte_digits(3,4)[OF b] by linarith+
  show ?case
    by (simp add: b64_char_props(2,3,4)[OF s(1)] b64_char_props(2,3,4)[OF s(2)]
          b64_char_props(2,3,4)[OF s(3)])
next
  case (3 a)
  then have a: "a < 256" by simp
  have s: "a div 4 < 64" "a mod 4 * 16 < 64"
    using byte_digits(1,2)[OF a] by linarith+
  show ?case
    by (simp add: b64_char_props(2,3,4)[OF s(1)] b64_char_props(2,3,4)[OF s(2)])
next
  case 4
  show ?case by simp
qed

lemma base64_encode_split: "base64_encode bs = b64_body bs @ b64_padding bs"
  by (induction bs rule: base64_encode.induct) simp_all

text \<open>The lengths: the text is whole groups of four, the body lacks what the padding has.\<close>

lemma b64_lengths:
  "(b64_padding bs = [] \<and> length (b64_body bs) mod 4 = 0) \<or>
   (b64_padding bs = [0x3D] \<and> length (b64_body bs) mod 4 = 3) \<or>
   (b64_padding bs = [0x3D, 0x3D] \<and> length (b64_body bs) mod 4 = 2)"
  by (induction bs rule: b64_body.induct) auto

section \<open>atob after btoa\<close>

lemma strip_padding_encoded:
  assumes "list_all (\<lambda>c. c < 256) bs"
  shows "strip_padding (b64_body bs @ b64_padding bs) = b64_body bs"
proof -
  let ?body = "b64_body bs"
  have chars: "list_all (\<lambda>c. c \<noteq> 0x3D) ?body"
    using b64_body_chars[OF assms] by (simp add: list_all_iff)
  consider (none) "b64_padding bs = []" "length ?body mod 4 = 0"
    | (one) "b64_padding bs = [0x3D]" "length ?body mod 4 = 3"
    | (two) "b64_padding bs = [0x3D, 0x3D]" "length ?body mod 4 = 2"
    using b64_lengths[of bs] by (elim disjE conjE) auto
  then show ?thesis
  proof cases
    case none
    show ?thesis
    proof (cases "rev ?body")
      case Nil
      then show ?thesis by (simp add: none strip_padding_def)
    next
      case (Cons p r)
      then have "p \<in> set ?body"
        by (metis list.set_intros(1) set_rev)
      with chars have "p \<noteq> 0x3D" by (simp add: list_all_iff)
      then show ?thesis
        using Cons by (simp add: none strip_padding_def split: list.splits)
    qed
  next
    case one
    then have "?body \<noteq> []" by auto
    then obtain q r where rev: "rev ?body = q # r" by (cases "rev ?body") auto
    then have "q \<in> set ?body"
      by (metis list.set_intros(1) set_rev)
    with chars have q: "q \<noteq> 0x3D" by (simp add: list_all_iff)
    have restored: "rev r @ [q] = ?body"
      using rev by (metis rev.simps(2) rev_rev_ident)
    have len: "(length ?body + 1) mod 4 = 0"
      using one(2) by presburger
    show ?thesis
      using q len by (simp add: one(1) strip_padding_def rev restored)
  next
    case two
    have len: "(length ?body + 2) mod 4 = 0"
      using two(2) by presburger
    show ?thesis
      using len by (simp add: two(1) strip_padding_def)
  qed
qed

lemma atob_base64_encode:
  assumes "list_all (\<lambda>c. c < 256) bs"
  shows "atob (base64_encode bs) = Inr bs"
proof -
  let ?body = "b64_body bs"
  have chars: "list_all (\<lambda>c. is_b64 c \<and> c \<noteq> 0x3D \<and> \<not> ascii_whitespace c) ?body"
    by (rule b64_body_chars[OF assms])
  have pad: "list_all (\<lambda>c. \<not> ascii_whitespace c) (b64_padding bs)"
    using b64_lengths[of bs] by (auto simp: ascii_whitespace_def)
  have "list_all (\<lambda>c. \<not> ascii_whitespace c) (?body @ b64_padding bs)"
    using chars pad by (auto simp: list_all_iff)
  then have kept: "filter (\<lambda>c. \<not> ascii_whitespace c) (?body @ b64_padding bs) =
      ?body @ b64_padding bs"
    by (simp only: filter_id_conv list_all_iff)
  have alphabet: "list_all is_b64 ?body"
    using chars by (simp add: list_all_iff)
  have len: "length ?body mod 4 \<noteq> 1"
    using b64_lengths[of bs] by auto
  show ?thesis
    unfolding atob_def base64_encode_split kept strip_padding_encoded[OF assms] Let_def
    using alphabet len by (simp add: decode_body[OF assms])
qed

lemma btoa_bytes: "list_all (\<lambda>c. c < 256) bs \<Longrightarrow> btoa bs = Inr (base64_encode bs)"
  by (auto simp: btoa_def list_ex_iff list_all_iff)

lemma Uint8Array_from_bytes: "list_all (\<lambda>c. c < 256) bs \<Longrightarrow> Uint8Array_from bs = bs"
  by (simp add: Uint8Array_from_def list_all_iff map_idI)

lemma octets_bytes:
  "list_all scalar cps \<Longrightarrow> list_all (\<lambda>c. c < 256) (concat (map utf8_octets cps))"
proof (induction cps)
  case Nil
  show ?case by simp
next
  case (Cons cp cps)
  then have "cp < 0x110000" by (simp add: scalar_def)
  from utf8_octets_bytes[OF this] Cons show ?case by simp
qed

section \<open>The text of a collection is well formed\<close>

text \<open>Units below the surrogates can stand anywhere in a well-formed string.\<close>

lemma plain_not_surrogate: "c < 0xD800 \<Longrightarrow> \<not> is_lead c \<and> \<not> is_trail c"
  by (simp add: is_lead_def is_trail_def)

lemma well_formed_plain_append:
  "list_all (\<lambda>c. c < 0xD800) xs \<Longrightarrow> well_formed (xs @ ys) = well_formed ys"
  by (induction xs) (simp_all add: plain_not_surrogate)

lemma well_formed_plain: "list_all (\<lambda>c. c < 0xD800) xs \<Longrightarrow> well_formed xs"
  using well_formed_plain_append[of xs "[]"] by simp

lemma well_formed_append:
  "well_formed xs \<Longrightarrow> well_formed ys \<Longrightarrow> well_formed (xs @ ys)"
proof (induction xs rule: well_formed.induct)
  case 1
  then show ?case by simp
next
  case (2 c cs)
  show ?case
  proof (cases "is_lead c")
    case True
    with "2.prems"(1) obtain d ds where cs: "cs = d # ds" and d: "is_trail d"
      and wf: "well_formed ds"
      by (cases cs) auto
    from "2.IH"(1)[OF True cs wf "2.prems"(2)] True d cs show ?thesis by simp
  next
    case False
    with "2.prems"(1) have nt: "\<not> is_trail c" and wf: "well_formed cs"
      by simp_all
    from "2.IH"(2)[OF False wf "2.prems"(2)] False nt show ?thesis by simp
  qed
qed

lemma is_string_append: "is_string (xs @ ys) = (is_string xs \<and> is_string ys)"
  by (simp add: is_string_def)

lemma is_string_plain: "list_all (\<lambda>c. c < 0xD800) xs \<Longrightarrow> is_string xs"
  by (simp add: is_string_def list_all_iff) fastforce

lemma units_of_plain: "list_all (\<lambda>c. c < 0xD800) (units_of s)"
proof -
  have "of_char c < (0xD800 :: nat)" for c :: char
  proof -
    have "of_char c < (256 :: nat)"
      by (rule nat_of_char_less_256)
    then show ?thesis by linarith
  qed
  then show ?thesis
    by (simp add: units_of_def list_all_iff)
qed

lemma hex_lower_plain: "d < 16 \<Longrightarrow> hex_lower d < 0xD800"
  by (simp add: hex_lower_def)

lemma UnicodeEscape_plain: "list_all (\<lambda>c. c < 0xD800) (UnicodeEscape c)"
  by (simp add: UnicodeEscape_def hex_lower_plain)

lemma quote_code_point_plain:
  "list_all (\<lambda>c. c < 0xD800) (quote_code_point c) \<or>
   (quote_code_point c = [c] \<and> \<not> is_lead c \<and> \<not> is_trail c)"
  using UnicodeEscape_plain[of c] by (simp add: quote_code_point_def)

lemma quote_code_point_good:
  assumes "c < 0x10000"
  shows "is_string (quote_code_point c)"
    and "well_formed (quote_code_point c @ ys) = well_formed ys"
proof -
  from quote_code_point_plain[of c]
  show "is_string (quote_code_point c)"
  proof
    assume "list_all (\<lambda>c. c < 0xD800) (quote_code_point c)"
    then show ?thesis by (rule is_string_plain)
  next
    assume "quote_code_point c = [c] \<and> \<not> is_lead c \<and> \<not> is_trail c"
    with assms show ?thesis by (simp add: is_string_def)
  qed
  from quote_code_point_plain[of c]
  show "well_formed (quote_code_point c @ ys) = well_formed ys"
  proof
    assume "list_all (\<lambda>c. c < 0xD800) (quote_code_point c)"
    then show ?thesis by (rule well_formed_plain_append)
  next
    assume "quote_code_point c = [c] \<and> \<not> is_lead c \<and> \<not> is_trail c"
    then show ?thesis by simp
  qed
qed

lemma quote_units_good:
  "is_string s \<Longrightarrow> is_string (quote_units s) \<and> well_formed (quote_units s)"
proof (induction s rule: quote_units.induct)
  case 1
  show ?case by (simp add: is_string_def)
next
  case (2 c)
  then have c: "c < 0x10000" by (simp add: is_string_def)
  from quote_code_point_good(1)[OF c] quote_code_point_good(2)[OF c, of "[]"] show ?case by simp
next
  case (3 c d ds)
  from "3.prems" have c: "c < 0x10000" and d: "d < 0x10000" and ds: "is_string ds"
    and dds: "is_string (d # ds)"
    by (simp_all add: is_string_def)
  show ?case
  proof (cases "is_lead c \<and> is_trail d")
    case True
    from "3.IH"(1)[OF True ds] True c d show ?thesis
      by (simp add: is_string_def)
  next
    case False
    then have q: "quote_units (c # d # ds) = quote_code_point c @ quote_units (d # ds)"
      by (simp only: quote_units.simps if_False)
    from "3.IH"(2)[OF False dds] quote_code_point_good(1)[OF c]
      quote_code_point_good(2)[OF c, of "quote_units (d # ds)"]
    show ?thesis
      unfolding q by (simp add: is_string_append)
  qed
qed

lemma QuoteJSONString_good:
  assumes "is_string s"
  shows "is_string (QuoteJSONString s)" and "well_formed (QuoteJSONString s)"
proof -
  have q: "list_all (\<lambda>c. c < 0xD800) [0x22::nat]" by simp
  from quote_units_good[OF assms] have g: "is_string (quote_units s)" "well_formed (quote_units s)"
    by simp_all
  show "is_string (QuoteJSONString s)"
    using g(1) by (simp add: QuoteJSONString_def is_string_def)
  have "well_formed (quote_units s @ [0x22])"
    using g(2) by (rule well_formed_append) (simp add: is_lead_def is_trail_def)
  then show "well_formed (QuoteJSONString s)"
    by (simp add: QuoteJSONString_def is_lead_def is_trail_def)
qed

lemma is_string_units: "is_string (map unat (s :: 16 word list))"
proof -
  have "unat (u :: 16 word) < 0x10000" for u
    using unsigned_less[of u, where ?'a = nat] by simp
  then show ?thesis
    by (simp add: is_string_def list_all_iff)
qed

text \<open>Every text the serialization builds is a well-formed string.\<close>

lemma plain_good:
  "list_all (\<lambda>c. c < 0xD800) xs \<Longrightarrow> is_string xs \<and> well_formed xs"
  by (simp add: is_string_plain well_formed_plain)

lemma good_append:
  "is_string xs \<and> well_formed xs \<Longrightarrow> is_string ys \<and> well_formed ys \<Longrightarrow>
   is_string (xs @ ys) \<and> well_formed (xs @ ys)"
  by (simp add: is_string_append well_formed_append)

lemma join_units_good:
  "is_string sep \<and> well_formed sep \<Longrightarrow> \<forall>t \<in> set ts. is_string t \<and> well_formed t \<Longrightarrow>
   is_string (join_units sep ts) \<and> well_formed (join_units sep ts)"
proof (induction sep ts rule: join_units.induct)
  case (1 sep)
  show ?case by (simp add: is_string_def)
next
  case (2 sep s)
  then show ?case by simp
next
  case (3 sep s t ss)
  from "3.prems" have s: "is_string s \<and> well_formed s"
    and sep: "is_string sep \<and> well_formed sep"
    and rest: "\<forall>t \<in> set (t # ss). is_string t \<and> well_formed t"
    by simp_all
  have "is_string (s @ sep @ join_units sep (t # ss)) \<and>
        well_formed (s @ sep @ join_units sep (t # ss))"
    by (intro good_append s sep "3.IH"[OF sep rest])
  then show ?case by simp
qed

lemma indent_plain: "list_all (\<lambda>c. c < 0xD800) (indent depth)"
  by (simp add: indent_def list_all_iff)

lemma wrap_good:
  assumes "opening < 0xD800" and "closing < 0xD800"
      and "\<forall>t \<in> set partial. is_string t \<and> well_formed t"
  shows "is_string (wrap opening closing depth partial) \<and>
         well_formed (wrap opening closing depth partial)"
proof (cases "partial = []")
  case True
  have "list_all (\<lambda>c. c < 0xD800) [opening, closing]"
    using assms(1,2) by simp
  moreover have "wrap opening closing depth partial = [opening, closing]"
    using True by (simp add: wrap_def)
  ultimately show ?thesis
    by (simp only: plain_good)
next
  case False
  have sep: "is_string ([0x2C, 0x0A] @ indent (Suc depth)) \<and>
             well_formed ([0x2C, 0x0A] @ indent (Suc depth))"
    by (intro plain_good) (simp add: indent_plain)
  have "is_string ([opening, 0x0A] @ indent (Suc depth) @
           join_units ([0x2C, 0x0A] @ indent (Suc depth)) partial @
           [0x0A] @ indent depth @ [closing]) \<and>
        well_formed ([opening, 0x0A] @ indent (Suc depth) @
           join_units ([0x2C, 0x0A] @ indent (Suc depth)) partial @
           [0x0A] @ indent depth @ [closing])"
    using assms(1,2)
    by (intro good_append join_units_good[OF sep assms(3)] plain_good indent_plain) simp_all
  with False show ?thesis
    by (simp only: wrap_def if_False)
qed

lemma SerializeJSONProperty_good:
  "SerializeJSONProperty depth v = Some t \<Longrightarrow> is_string t \<and> well_formed t"
proof (induction v arbitrary: depth t)
  case VUndefined
  then show ?case by simp
next
  case VNull
  then have "t = units_of ''null''" by simp
  then show ?case using plain_good[OF units_of_plain] by simp
next
  case (VBool b)
  then have "t = units_of (if b then ''true'' else ''false'')" by simp
  then show ?case using plain_good[OF units_of_plain] by simp
next
  case (VNumber n)
  then have "t = units_of n" by simp
  then show ?case using plain_good[OF units_of_plain] by simp
next
  case (VString s)
  then show ?case
    using QuoteJSONString_good[OF is_string_units[of s]] by auto
next
  case (VArray xs)
  have "\<forall>t \<in> set (map (\<lambda>x. case SerializeJSONProperty (Suc depth) x of
                    None \<Rightarrow> units_of ''null'' | Some t \<Rightarrow> t) xs).
          is_string t \<and> well_formed t"
  proof
    fix t
    assume "t \<in> set (map (\<lambda>x. case SerializeJSONProperty (Suc depth) x of
                    None \<Rightarrow> units_of ''null'' | Some t \<Rightarrow> t) xs)"
    then obtain x where x: "x \<in> set xs"
      and t: "t = (case SerializeJSONProperty (Suc depth) x of
                     None \<Rightarrow> units_of ''null'' | Some t \<Rightarrow> t)"
      by auto
    show "is_string t \<and> well_formed t"
    proof (cases "SerializeJSONProperty (Suc depth) x")
      case None
      with t have "t = units_of ''null''" by simp
      then show ?thesis using plain_good[OF units_of_plain] by simp
    next
      case (Some u)
      with t VArray.IH[OF x Some] show ?thesis by simp
    qed
  qed
  from wrap_good[OF _ _ this, of "0x5B" "0x5D" depth] VArray.prems show ?case
    by auto
next
  case (VObject kvs)
  have "\<forall>t \<in> set (concat (map (\<lambda>(k, v). case SerializeJSONProperty (Suc depth) v of
                                 None \<Rightarrow> []
                               | Some t \<Rightarrow> [QuoteJSONString (map unat k) @ [0x3A, 0x20] @ t])
                  kvs)).
          is_string t \<and> well_formed t"
  proof
    fix t
    assume "t \<in> set (concat (map (\<lambda>(k, v). case SerializeJSONProperty (Suc depth) v of
                                 None \<Rightarrow> []
                               | Some t \<Rightarrow> [QuoteJSONString (map unat k) @ [0x3A, 0x20] @ t])
                  kvs))"
    then obtain kv where kvs: "kv \<in> set kvs"
      and tk: "t \<in> set (case kv of (k, v) \<Rightarrow>
                 case SerializeJSONProperty (Suc depth) v of
                   None \<Rightarrow> []
                 | Some t \<Rightarrow> [QuoteJSONString (map unat k) @ [0x3A, 0x20] @ t])"
      by auto
    obtain k v where kv_eq: "kv = (k, v)" by (cases kv)
    from tk obtain u where u: "SerializeJSONProperty (Suc depth) v = Some u"
      and t: "t = QuoteJSONString (map unat k) @ [0x3A, 0x20] @ u"
      unfolding kv_eq by (cases "SerializeJSONProperty (Suc depth) v") simp_all
    from kvs have kv: "(k, v) \<in> set kvs" unfolding kv_eq .
    from kv have "v \<in> Basic_BNFs.snds (k, v)" by simp
    from VObject.IH[OF kv this u] have gu: "is_string u \<and> well_formed u" .
    have gk: "is_string (QuoteJSONString (map unat k)) \<and> well_formed (QuoteJSONString (map unat k))"
      using QuoteJSONString_good[OF is_string_units[of k]] by simp
    have "is_string (QuoteJSONString (map unat k) @ [0x3A, 0x20] @ u) \<and>
          well_formed (QuoteJSONString (map unat k) @ [0x3A, 0x20] @ u)"
      by (intro good_append gk gu plain_good) simp
    with t show "is_string t \<and> well_formed t" by simp
  qed
  from wrap_good[OF _ _ this, of "0x7B" "0x7D" depth] VObject.prems show ?case
    by auto
qed

lemma take_wrap: "take 1 (wrap opening closing depth partial) = [opening]"
  by (simp add: wrap_def)

text \<open>
  So the text of a collection is a string without unpaired surrogates, and it begins
  with a bracket.
\<close>

lemma JSON_text_good:
  "is_string (JSON_text validatedData)" "well_formed (JSON_text validatedData)"
  "take 1 (JSON_text validatedData) \<noteq> [0xFEFF]"
proof -
  have "\<exists>t. SerializeJSONProperty 0 (VArray validatedData) = Some t" by simp
  then obtain t where t: "SerializeJSONProperty 0 (VArray validatedData) = Some t" ..
  then have j: "JSON_text validatedData = t"
    by (simp only: JSON_text_def option.case)
  from SerializeJSONProperty_good[OF t] show "is_string (JSON_text validatedData)"
    "well_formed (JSON_text validatedData)"
    unfolding j by simp_all
  show "take 1 (JSON_text validatedData) \<noteq> [0xFEFF]"
    unfolding JSON_text_def SerializeJSONProperty.simps option.case take_wrap by simp
qed

section \<open>The stored text comes back\<close>

text \<open>
  A string without unpaired surrogates that does not begin with U+FEFF is encoded by
  \<open>encode_content\<close>, and \<open>decode_content\<close> gives it back, whatever characters it
  has.
\<close>

lemma content_round_trip:
  assumes "is_string s" and "well_formed s" and "take 1 s \<noteq> [0xFEFF]"
  shows "\<exists>content. encode_content s = Inr content \<and> decode_content content = Some s"
proof -
  let ?octets = "concat (map utf8_octets (code_points s))"
  from assms(1) have units: "list_all (\<lambda>c. c < 65536) s"
    by (simp add: is_string_def)
  from escaped_octets[OF assms(2) units] obtain escaped where
    escaped: "encodeURIComponent s = Inr escaped" and octets: "unescape escaped = ?octets"
    by (elim exE conjE)
  have scalars: "list_all scalar (code_points s)"
    by (rule code_points_scalar[OF assms(2) units])
  have bytes: "list_all (\<lambda>c. c < 256) ?octets"
    by (rule octets_bytes[OF scalars])
  have written: "encode_content s = Inr (base64_encode ?octets)"
    by (simp add: encode_content_def escaped octets btoa_bytes[OF bytes])
  have "TextDecoder_decode ?octets = s"
    by (simp only: TextDecoder_decode_def decode_all_octets[OF scalars] no_bom[OF assms(3)]
          units_of_code_points[OF assms(2) units])
  then have "decode_content (base64_encode ?octets) = Some s"
    by (simp add: decode_content_def atob_base64_encode[OF bytes] Uint8Array_from_bytes[OF bytes])
  with written show ?thesis
    by (intro exI[of _ "base64_encode ?octets"] conjI)
qed

text \<open>
  C8. Whatever collection the write path serializes, its strings being any lists of
  units (non-ASCII characters, surrogate pairs and unpaired surrogates included), the
  text \<^verbatim>\<open>JSON.stringify(validatedData, null, 2)\<close> is encoded by the write path, and
  the decoding of the read path makes that text of the content.
\<close>

theorem stored_text_round_trip:
  "\<exists>content. encode_content (JSON_text validatedData) = Inr content \<and>
             decode_content content = Some (JSON_text validatedData)"
  by (rule content_round_trip[OF JSON_text_good])

text \<open>
  The repository serves a content in lines; \<^verbatim>\<open>atob\<close> drops the line breaks, so the
  read path makes the same text of it.
\<close>

lemma served_in_lines:
  assumes "filter (\<lambda>c. \<not> ascii_whitespace c) served = content"
      and "list_all (\<lambda>c. \<not> ascii_whitespace c) content"
  shows "decode_content served = decode_content content"
proof -
  from assms(2) have "filter (\<lambda>c. \<not> ascii_whitespace c) content = content"
    by (simp only: filter_id_conv list_all_iff)
  with assms(1) show ?thesis
    by (simp add: decode_content_def atob_def)
qed

text \<open>
  An array of one string, U+00E9 followed by an unpaired surrogate: the text has the
  surrogate as an escape, and its content \<^verbatim>\<open>WwogICLDqVx1ZDgzZCIKXQ==\<close> decodes to
  it.
\<close>

lemma sample_text:
  "JSON_text [VString [0xE9, 0xD83D]] =
     [0x5B, 0x0A, 0x20, 0x20, 0x22, 0xE9, 0x5C, 0x75, 0x64, 0x38, 0x33, 0x64, 0x22, 0x0A, 0x5D]"
proof -
  have u: "map unat [0xE9, 0xD83D :: 16 word] = [0xE9, 0xD83D]"
    by simp
  have q: "QuoteJSONString [0xE9, 0xD83D] =
      [0x22, 0xE9, 0x5C, 0x75, 0x64, 0x38, 0x33, 0x64, 0x22]"
    by (simp add: QuoteJSONString_def quote_code_point_def is_lead_def is_trail_def
          UnicodeEscape_def hex_lower_def)
  have i: "indent 0 = []" "indent (Suc 0) = [0x20, 0x20]"
    by (simp_all add: indent_def numeral_2_eq_2)
  show ?thesis
    by (simp add: JSON_text_def wrap_def u q i)
qed

lemma sample_content:
  "encode_content
     [0x5B, 0x0A, 0x20, 0x20, 0x22, 0xE9, 0x5C, 0x75, 0x64, 0x38, 0x33, 0x64, 0x22, 0x0A, 0x5D] =
   Inr [87, 119, 111, 103, 73, 67, 76, 68, 113, 86, 120, 49, 90, 68, 103, 122,
        90, 67, 73, 75, 88, 81, 61, 61]"
  by (simp add: encode_content_def uriUnreserved_def is_trail_def is_lead_def prepend_def
        utf8_octets_def percent_def hex_upper_def unescape.simps hexDigit_def hexNumber_def
        hexValue_def btoa_def b64_char_def)

lemma sample_decoded:
  "decode_content [87, 119, 111, 103, 73, 67, 76, 68, 113, 86, 120, 49, 90, 68, 103, 122,
        90, 67, 73, 75, 88, 81, 61, 61] =
   Some [0x5B, 0x0A, 0x20, 0x20, 0x22, 0xE9, 0x5C, 0x75, 0x64, 0x38, 0x33, 0x64, 0x22, 0x0A, 0x5D]"
  by (simp add: decode_content_def atob_def ascii_whitespace_def strip_padding_def is_b64_def
        b64_value_def Uint8Array_from_def TextDecoder_decode_def utf8_decode.simps
        utf16_units_def)

text \<open>
  The two hypotheses of \<open>content_round_trip\<close> are needed, on strings no collection
  has for its text: the decoder drops a leading U+FEFF, and a string with an unpaired
  surrogate is not encoded.
\<close>

lemma bom_encoded: "encode_content [0xFEFF] = Inr [0x37, 0x37, 0x75, 0x2F]"
  by (simp add: encode_content_def uriUnreserved_def is_trail_def is_lead_def prepend_def
        utf8_octets_def percent_def hex_upper_def unescape.simps hexDigit_def hexNumber_def
        hexValue_def btoa_def b64_char_def)

lemma bom_decoded: "decode_content [0x37, 0x37, 0x75, 0x2F] = Some []"
  by (simp add: decode_content_def atob_def ascii_whitespace_def strip_padding_def is_b64_def
        b64_value_def Uint8Array_from_def TextDecoder_decode_def utf8_decode.simps)

lemma lone_surrogate: "encode_content [0xD83D] = Inl InvalidCharacterError"
  by (simp add: encode_content_def uriUnreserved_def is_trail_def is_lead_def btoa_def)

section \<open>The write of a collection\<close>

text \<open>The encoding of \<open>setStorage\<close> never throws, so the write is the remote one.\<close>

lemma setStorage_eq:
  "setStorage entityName data w =
     (let content = jsonString data
      in if github w then
           (case createOrUpdateFileContents (data_path entityName) content
                   (shaCache w entityName) w of
              (Ok sha, w1) \<Rightarrow> w1\<lparr>shaCache := (shaCache w1)(entityName \<mapsto> sha)\<rparr>
            | (Status409, w1) \<Rightarrow>
                (case getContent (data_path entityName) w1 of
                   (Ok (b, sha), w2) \<Rightarrow>
                     (let w3 = w2\<lparr>shaCache := (shaCache w2)(entityName \<mapsto> sha)\<rparr>
                      in case createOrUpdateFileContents (data_path entityName) content
                              (shaCache w3 entityName) w3 of
                           (Ok sha', w4) \<Rightarrow> w4\<lparr>shaCache := (shaCache w4)(entityName \<mapsto> sha')\<rparr>
                         | (_, w4) \<Rightarrow> setItem (local_key entityName) content w4)
                 | (_, w2) \<Rightarrow> setItem (local_key entityName) content w2)
            | (_, w1) \<Rightarrow> setItem (local_key entityName) content w1)
         else setItem (local_key entityName) content w)"
proof -
  from content_round_trip[OF JSON_text_good, of "map (\<lambda>item. js_value (JObj item)) data"]
  obtain encoded where
    "encode_content (JSON_text (map (\<lambda>item. js_value (JObj item)) data)) = Inr encoded"
    by (elim exE conjE)
  then show ?thesis
    by (simp add: setStorage_def Let_def)
qed

section \<open>Objects\<close>

lemma map_of_obj_set: "map_of (obj_set item k v) = (map_of item)(k \<mapsto> v)"
  by (induction item k v rule: obj_set.induct) (auto simp: fun_eq_iff)

lemma obj_get_obj_set: "obj_get (obj_set item k v) k' = (if k' = k then v else obj_get item k')"
  by (simp add: obj_get_def map_of_obj_set)


lemma obj_assign_Nil: "obj_assign target [] = target"
  by (simp add: obj_assign_def)

lemma obj_assign_Cons:
  "obj_assign target ((k, v) # source) = obj_assign (obj_set target k v) source"
  by (simp add: obj_assign_def)






section \<open>The JSON round trip\<close>

lemma roundtrip_obj_Nil: "roundtrip_obj [] = []"
  by (simp add: roundtrip_obj_def)

lemma roundtrip_obj_Cons:
  "roundtrip_obj ((k, v) # item) =
     (if v = JUndefined then roundtrip_obj item else (k, json_roundtrip v) # roundtrip_obj item)"
  by (simp add: roundtrip_obj_def)

lemma map_of_roundtrip_obj:
  "map_of item k = Some v \<Longrightarrow> v \<noteq> JUndefined \<Longrightarrow>
   map_of (roundtrip_obj item) k = Some (json_roundtrip v)"
proof (induction item)
  case Nil
  then show ?case by simp
next
  case (Cons kv item)
  obtain k' v' where kv: "kv = (k', v')" by (cases kv)
  show ?case
  proof (cases "k' = k")
    case True
    with Cons.prems kv show ?thesis by (simp add: roundtrip_obj_Cons)
  next
    case False
    with Cons kv show ?thesis by (simp add: roundtrip_obj_Cons)
  qed
qed

lemma obj_get_roundtrip_obj:
  "obj_get item k \<noteq> JUndefined \<Longrightarrow>
   obj_get (roundtrip_obj item) k = json_roundtrip (obj_get item k)"
  by (cases "map_of item k") (simp_all add: obj_get_def map_of_roundtrip_obj)

section \<open>Searching\<close>

lemma findIndex_None: "findIndex p xs = None \<longleftrightarrow> (\<forall>x \<in> set xs. \<not> p x)"
  by (induction xs) auto


section \<open>The stores\<close>

lemma getStorage_frame:
  assumes "getStorage e w = (r, w1)"
  shows "github w1 = github w" "sha_of w1 = sha_of w" "remote w1 = remote w"
    "localStorage w1 = localStorage w" "pricepilot_user w1 = pricepilot_user w"
    "clock w1 = clock w" "ticks w1 = ticks w" "random w1 = random w" "draws w1 = draws w"
  using assms
  by (auto simp: getStorage_def getContent_def transit_def Let_def
        split: list.splits bool.splits option.splits prod.splits response.splits if_splits)

lemma setStorage_frame:
  "github (setStorage e d w) = github w"
  "sha_of (setStorage e d w) = sha_of w"
  "pricepilot_user (setStorage e d w) = pricepilot_user w"
  "clock (setStorage e d w) = clock w"
  "ticks (setStorage e d w) = ticks w"
  "random (setStorage e d w) = random w"
  "draws (setStorage e d w) = draws w"
  by (simp_all add: setStorage_eq createOrUpdateFileContents_def getContent_def transit_def
        setItem_def Let_def
        split: list.splits bool.splits option.splits prod.splits response.splits)

lemma setStorage_persisted: "persisted e d (setStorage e d w)"
  by (simp add: persisted_def setStorage_eq createOrUpdateFileContents_def getContent_def
        transit_def setItem_def Let_def
        split: list.splits bool.splits option.splits prod.splits response.splits)


lemma getCurrentUser_truthy:
  "truthy (fst (getCurrentUser w))" "truthy (snd (getCurrentUser w))"
  by (auto simp: getCurrentUser_def js_or_def split: option.splits sum.splits)

lemma truthy_defined: "truthy v \<Longrightarrow> v \<noteq> JUndefined"
  by auto

lemma final_user_defined: "js_or userId (fst (getCurrentUser w)) \<noteq> JUndefined"
  using getCurrentUser_truthy(1)[of w] by (auto simp: js_or_def)

lemma user_name_defined: "snd (getCurrentUser w) \<noteq> JUndefined"
  using getCurrentUser_truthy(2)[of w] by auto

section \<open>Sample sessions\<close>

lemma getStorage_local_session:
  "getStorage ''Product'' local_session = (Inr [milk], local_session)"
  by (simp add: getStorage_def local_session_def local_key_def)

lemma getStorage_github_session:
  "getStorage ''Product'' github_session =
     (Inr [milk], github_session\<lparr>shaCache := [''Product'' \<mapsto> Suc (Suc 0)]\<rparr>)"
  by (simp add: getStorage_def github_session_def data_path_def getContent_def transit_def
        sha_sample_def)

section \<open>create\<close>

lemma create_eq:
  "getStorage entityName w = (Inr items, w1) \<Longrightarrow>
   create entityName data userId w =
     (Inr (JObj (new_item data (random w1 (draws w1)) (clock w1 (ticks w1))
                      (clock w1 (Suc (ticks w1))) (js_or userId (fst (getCurrentUser w1)))
                      (snd (getCurrentUser w1)))),
          setStorage entityName (items @ [new_item data (random w1 (draws w1)) (clock w1 (ticks w1))
                      (clock w1 (Suc (ticks w1))) (js_or userId (fst (getCurrentUser w1)))
                      (snd (getCurrentUser w1))])
            (w1\<lparr>draws := Suc (draws w1), ticks := Suc (Suc (ticks w1))\<rparr>))"
  by (simp add: create_def create_on_def Let_def Math_random_toString36_def Date_toISOString_def
        getCurrentUser_def split: prod.splits)

lemma new_item_system_fields:
  "map (obj_get (new_item data rnd created updated uid uname)) system_fields =
     [JStr (substr rnd 2 9), JStr created, uid, uname, JStr updated, uid, uname,
      JArr [], JArr [], JArr []]"
  by (simp add: new_item_def system_fields_def obj_get_obj_set obj_assign_Cons obj_assign_Nil)

text \<open>
  C10. Whatever the payload holds, the record \<open>create\<close> returns has the generated id,
  the two clock readings, the resolved actor and empty \<open>likes\<close>, \<open>dislikes\<close> and
  \<open>edit_history\<close> in its ten system fields, and so has the record written to the
  store (the last one of the collection persisted).
\<close>

theorem create_system_fields:
  assumes "getStorage entityName w = (Inr items, w1)"
  shows "\<exists>newItem w'.
     create entityName data userId w = (Inr (JObj newItem), w') \<and>
     persisted entityName (items @ [newItem]) w' \<and>
     jsonString (items @ [newItem]) =
       Collection (map roundtrip_obj items @ [roundtrip_obj newItem]) \<and>
     (let finalUserId = js_or userId (fst (getCurrentUser w1));
          finalUserName = snd (getCurrentUser w1);
          generated =
            [JStr (substr (random w1 (draws w1)) 2 9),
             JStr (clock w1 (ticks w1)), finalUserId, finalUserName,
             JStr (clock w1 (Suc (ticks w1))), finalUserId, finalUserName,
             JArr [], JArr [], JArr []]
      in map (obj_get newItem) system_fields = generated \<and>
         map (obj_get (roundtrip_obj newItem)) system_fields = map json_roundtrip generated)"
proof -
  define uid where "uid = js_or userId (fst (getCurrentUser w1))"
  define uname where "uname = snd (getCurrentUser w1)"
  define newItem where "newItem = new_item data (random w1 (draws w1)) (clock w1 (ticks w1))
                      (clock w1 (Suc (ticks w1))) uid uname"
  define w' where "w' = setStorage entityName (items @ [newItem])
            (w1\<lparr>draws := Suc (draws w1), ticks := Suc (Suc (ticks w1))\<rparr>)"
  have c: "create entityName data userId w = (Inr (JObj newItem), w')"
    unfolding w'_def newItem_def uid_def uname_def by (rule create_eq[OF assms])
  have p: "persisted entityName (items @ [newItem]) w'"
    unfolding w'_def by (rule setStorage_persisted)
  have j: "jsonString (items @ [newItem]) =
       Collection (map roundtrip_obj items @ [roundtrip_obj newItem])"
    by (simp add: jsonString_def)
  have defined: "uid \<noteq> JUndefined" "uname \<noteq> JUndefined"
    unfolding uid_def uname_def by (rule final_user_defined, rule user_name_defined)
  have f: "map (obj_get newItem) system_fields =
     [JStr (substr (random w1 (draws w1)) 2 9), JStr (clock w1 (ticks w1)), uid, uname,
      JStr (clock w1 (Suc (ticks w1))), uid, uname, JArr [], JArr [], JArr []]"
    unfolding newItem_def by (rule new_item_system_fields)
  have "JUndefined \<notin> set (map (obj_get newItem) system_fields)"
    unfolding f using defined by auto
  then have "\<forall>k \<in> set system_fields. obj_get newItem k \<noteq> JUndefined"
    by force
  then have "map (obj_get (roundtrip_obj newItem)) system_fields =
      map json_roundtrip (map (obj_get newItem) system_fields)"
    by (simp add: obj_get_roundtrip_obj)
  then have s: "map (obj_get (roundtrip_obj newItem)) system_fields =
      map json_roundtrip [JStr (substr (random w1 (draws w1)) 2 9), JStr (clock w1 (ticks w1)),
        uid, uname, JStr (clock w1 (Suc (ticks w1))), uid, uname, JArr [], JArr [], JArr []]"
    unfolding f .
  show ?thesis
    unfolding Let_def uid_def[symmetric] uname_def[symmetric]
    by (intro exI[of _ newItem] exI[of _ w'] conjI c p j f s)
qed

text \<open>
  The theorem at a payload that names five system fields: the record created in the
  sample session has none of the payload's values in them.
\<close>

theorem create_system_fields_witness:
  "getStorage ''Product'' local_session = (Inr [milk], local_session) \<and>
   (\<exists>newItem w'.
      create ''Product''
        [(''name'', JStr ''Tea''), (''id'', JStr ''mine''), (''likes'', JArr [JStr ''u9'']),
         (''dislikes'', JNum 7), (''edit_history'', JStr ''x''), (''created_by'', JNull)]
        JNull local_session = (Inr (JObj newItem), w') \<and>
      map (obj_get newItem) system_fields =
        [JStr ''4fzyo82mv'', JStr ''2024-05-01T10:00:00.000Z'', JStr ''u1'', JStr ''Ann'',
         JStr ''2024-05-01T10:00:00.001Z'', JStr ''u1'', JStr ''Ann'',
         JArr [], JArr [], JArr []])"
proof -
  have h: "getStorage ''Product'' local_session = (Inr [milk], local_session)"
    by (rule getStorage_local_session)
  have u: "getCurrentUser local_session = (JStr ''u1'', JStr ''Ann'')"
    by (simp add: getCurrentUser_def local_session_def ann_def obj_get_def js_or_def)
  have v: "random local_session (draws local_session) = ''0.4fzyo82mvyr''"
    "clock local_session (ticks local_session) = ''2024-05-01T10:00:00.000Z''"
    "clock local_session (Suc (ticks local_session)) = ''2024-05-01T10:00:00.001Z''"
    by (simp_all add: local_session_def)
  from create_system_fields[OF h, of "[(''name'', JStr ''Tea''), (''id'', JStr ''mine''),
         (''likes'', JArr [JStr ''u9'']), (''dislikes'', JNum 7),
         (''edit_history'', JStr ''x''), (''created_by'', JNull)]" JNull]
  obtain newItem w' where
    c: "create ''Product''
        [(''name'', JStr ''Tea''), (''id'', JStr ''mine''), (''likes'', JArr [JStr ''u9'']),
         (''dislikes'', JNum 7), (''edit_history'', JStr ''x''), (''created_by'', JNull)]
        JNull local_session = (Inr (JObj newItem), w')" and
    f: "map (obj_get newItem) system_fields =
        [JStr (substr ''0.4fzyo82mvyr'' 2 9), JStr ''2024-05-01T10:00:00.000Z'',
         js_or JNull (JStr ''u1''), JStr ''Ann'', JStr ''2024-05-01T10:00:00.001Z'',
         js_or JNull (JStr ''u1''), JStr ''Ann'', JArr [], JArr [], JArr []]"
    unfolding Let_def u v fst_conv snd_conv by (elim exE conjE) (rule that, assumption+)
  have g: "map (obj_get newItem) system_fields =
        [JStr ''4fzyo82mv'', JStr ''2024-05-01T10:00:00.000Z'', JStr ''u1'', JStr ''Ann'',
         JStr ''2024-05-01T10:00:00.001Z'', JStr ''u1'', JStr ''Ann'',
         JArr [], JArr [], JArr []]"
    unfolding f by (simp add: js_or_def substr_def)
  show ?thesis by (intro conjI exI[of _ newItem] exI[of _ w'] h c g)
qed

section \<open>Records that are not there\<close>

lemma find_id_None:
  "\<forall>item \<in> set items. \<not> id_matches ident item \<Longrightarrow> find (id_matches ident) items = None"
  by (simp add: find_None_iff)

lemma filter_id_all:
  "\<forall>item \<in> set items. \<not> id_matches ident item \<Longrightarrow>
   filter (\<lambda>item. \<not> id_matches ident item) items = items"
  by (simp add: filter_id_conv)

text \<open>
  When the read returns a collection in which no record has the id, \<open>get\<close>
  answers \<^verbatim>\<open>undefined\<close> and \<open>update\<close>, \<open>toggleLike\<close> and \<open>toggleDislike\<close>
  answer \<^verbatim>\<open>null\<close>, none of them raising or writing; \<open>delete\<close> answers
  \<^verbatim>\<open>true\<close> for any id and persists the collection without the records of that
  id, which is the whole collection when there are none.
\<close>

lemma not_found_when_read:
  assumes "getStorage entityName w = (Inr items, w1)"
      and "\<forall>item \<in> set items. \<not> id_matches ident item"
  shows "get_item entityName ident w = (Inr JUndefined, w1) \<and>
         update entityName ident data userId w = (Inr JNull, w1) \<and>
         toggleLike entityName ident userId w = (Inr JNull, w1) \<and>
         toggleDislike entityName ident userId w = (Inr JNull, w1) \<and>
         fst (delete entityName other w) = Inr True \<and>
         persisted entityName (filter (\<lambda>item. \<not> id_matches other item) items)
           (snd (delete entityName other w)) \<and>
         fst (delete entityName ident w) = Inr True \<and>
         persisted entityName items (snd (delete entityName ident w)) \<and>
         jsonString items = Collection (map roundtrip_obj items)"
proof -
  have none: "findIndex (id_matches ident) items = None"
    using assms(2) by (simp add: findIndex_None)
  have g: "get_item entityName ident w = (Inr JUndefined, w1)"
    using assms by (simp add: get_item_def find_id_None)
  have u: "update entityName ident data userId w = (Inr JNull, w1)"
    using assms(1) none by (simp add: update_def)
  have t: "toggle mine theirs entityName ident userId w = (Inr JNull, w1)" for mine theirs
    using assms(1) none by (simp add: toggle_def)
  have d: "delete entityName x w =
      (Inr True, setStorage entityName (filter (\<lambda>item. \<not> id_matches x item) items) w1)" for x
    using assms(1) by (simp add: delete_def)
  have p: "persisted entityName (filter (\<lambda>item. \<not> id_matches x item) items)
      (snd (delete entityName x w))" for x
    unfolding d snd_conv by (rule setStorage_persisted)
  from p[of ident] have p': "persisted entityName items (snd (delete entityName ident w))"
    by (simp only: filter_id_all[OF assms(2)])
  show ?thesis
    using g u t[of "''likes''" "''dislikes''"] t[of "''dislikes''" "''likes''"] p[of other] p'
    by (simp add: toggleLike_def toggleDislike_def d jsonString_def)
qed

lemma not_found_in_local_session:
  "getStorage ''Product'' local_session = (Inr [milk], local_session) \<and>
   \<not> id_matches (JStr ''p2'') milk \<and>
   get_item ''Product'' (JStr ''p2'') local_session = (Inr JUndefined, local_session) \<and>
   update ''Product'' (JStr ''p2'') [(''name'', JStr ''Tea'')] (JStr ''u1'') local_session =
     (Inr JNull, local_session) \<and>
   toggleLike ''Product'' (JStr ''p2'') (JStr ''u1'') local_session = (Inr JNull, local_session) \<and>
   toggleDislike ''Product'' (JStr ''p2'') (JStr ''u1'') local_session =
     (Inr JNull, local_session) \<and>
   fst (delete ''Product'' (JStr ''p2'') local_session) = Inr True \<and>
   persisted ''Product'' [milk] (snd (delete ''Product'' (JStr ''p2'') local_session))"
proof -
  have h: "getStorage ''Product'' local_session = (Inr [milk], local_session)"
    by (rule getStorage_local_session)
  have n: "\<forall>item \<in> set [milk]. \<not> id_matches (JStr ''p2'') item"
    by (simp add: id_matches_def milk_def obj_get_def)
  from not_found_when_read[OF h n, of "[(''name'', JStr ''Tea'')]" "JStr ''u1''" "JStr ''p2''"]
  show ?thesis using h n by simp
qed

text \<open>
  C9 fails on the code. The five operations begin with the read, and the read has its
  debug line \<^verbatim>\<open>data.length > 0\<close> before \<open>validateData\<close>: on a stored text that
  is the JSON value \<^verbatim>\<open>null\<close>, which \<open>validateData\<close> would have made the empty
  collection, the line throws. So \<open>get\<close>, \<open>update\<close>, \<open>toggleLike\<close> and
  \<open>toggleDislike\<close> raise where no record has the id, and \<open>delete\<close> raises and
  writes nothing.
\<close>

theorem null_text_raises:
  "localStorage null_session (local_key ''Product'') = Some JsonNull \<and>
   validateData JsonNull = [] \<and>
   get_item ''Product'' (JStr ''p1'') null_session = (Inl TypeError, null_session) \<and>
   update ''Product'' (JStr ''p1'') [(''name'', JStr ''Tea'')] JNull null_session =
     (Inl TypeError, null_session) \<and>
   toggleLike ''Product'' (JStr ''p1'') (JStr ''u1'') null_session =
     (Inl TypeError, null_session) \<and>
   toggleDislike ''Product'' (JStr ''p1'') (JStr ''u1'') null_session =
     (Inl TypeError, null_session) \<and>
   delete ''Product'' (JStr ''p1'') null_session = (Inl TypeError, null_session)"
proof -
  have s: "localStorage null_session (local_key ''Product'') = Some JsonNull"
    by (simp add: null_session_def)
  have g: "getStorage ''Product'' null_session = (Inl TypeError, null_session)"
    by (simp add: getStorage_def s null_session_def local_session_def)
  show ?thesis
    by (simp add: s g get_item_def update_def toggleLike_def toggleDislike_def toggle_def
          delete_def)
qed

section \<open>update\<close>









section \<open>list\<close>



lemma set_slice0: "set (slice0 xs n) \<subseteq> set xs"
  by (auto simp: slice0_def dest: in_set_takeD)









section \<open>The id of a new record\<close>

lemma new_item_id:
  "obj_get (new_item data rnd created updated uid uname) ''id'' = JStr (substr rnd 2 9)"
  by (simp add: new_item_def obj_get_obj_set obj_assign_Cons obj_assign_Nil)

text \<open>
  C7, as the code has it. The id of the record \<open>create\<close> returns is the third to
  eleventh character of the rendering of one random number: it is the system's whatever
  the payload says, has at most nine characters (seven or more when the rendering has
  nine or more), all of them characters of the rendering, and is fixed by the random
  source alone; the collection read has no part in it, so nothing keeps the id apart
  from the ids stored.
\<close>

theorem create_id_from_random:
  assumes "getStorage entityName w = (Inr items, w1)"
  shows "\<exists>newItem w' ident.
     create entityName data userId w = (Inr (JObj newItem), w') \<and>
     obj_get newItem ''id'' = JStr ident \<and>
     ident = substr (random w (draws w)) 2 9 \<and>
     length ident \<le> 9 \<and>
     (9 \<le> length (random w (draws w)) \<longrightarrow> 7 \<le> length ident) \<and>
     set ident \<subseteq> set (drop 2 (random w (draws w)))"
proof -
  define rnd where "rnd = random w (draws w)"
  define ident where "ident = substr rnd 2 9"
  define newItem where "newItem = new_item data rnd (clock w1 (ticks w1))
     (clock w1 (Suc (ticks w1))) (js_or userId (fst (getCurrentUser w1))) (snd (getCurrentUser w1))"
  define w' where "w' = setStorage entityName (items @ [newItem])
            (w1\<lparr>draws := Suc (draws w1), ticks := Suc (Suc (ticks w1))\<rparr>)"
  have r: "random w1 (draws w1) = rnd"
    using getStorage_frame(8,9)[OF assms] by (simp add: rnd_def)
  have c: "create entityName data userId w = (Inr (JObj newItem), w')"
    unfolding create_eq[OF assms] r newItem_def w'_def ..
  have i: "obj_get newItem ''id'' = JStr ident"
    unfolding newItem_def ident_def by (rule new_item_id)
  have l: "length ident \<le> 9"
    by (simp add: ident_def substr_def)
  have m: "9 \<le> length rnd \<longrightarrow> 7 \<le> length ident"
    by (auto simp: ident_def substr_def)
  have s: "set ident \<subseteq> set (drop 2 rnd)"
    unfolding ident_def substr_def by (rule set_take_subset)
  show ?thesis
    unfolding rnd_def[symmetric]
    by (intro exI[of _ newItem] exI[of _ w'] exI[of _ ident] conjI c i ident_def l m s)
qed

theorem create_id_from_random_witness:
  "getStorage ''Product'' local_session = (Inr [milk], local_session) \<and>
   (\<exists>newItem w'.
      create ''Product'' [(''id'', JStr ''mine'')] JNull local_session = (Inr (JObj newItem), w') \<and>
      obj_get newItem ''id'' = JStr ''4fzyo82mv'')"
proof -
  have h: "getStorage ''Product'' local_session = (Inr [milk], local_session)"
    by (rule getStorage_local_session)
  have r: "substr (random local_session (draws local_session)) 2 9 = ''4fzyo82mv''"
    by (simp add: local_session_def substr_def)
  from create_id_from_random[OF h, of "[(''id'', JStr ''mine'')]" JNull]
  obtain newItem w' where
    "create ''Product'' [(''id'', JStr ''mine'')] JNull local_session = (Inr (JObj newItem), w')"
    "obj_get newItem ''id'' = JStr ''4fzyo82mv''"
    unfolding r by (elim exE conjE) (rule that, assumption, simp)
  then show ?thesis
    by (intro conjI h exI[of _ newItem] exI[of _ w'])
qed

text \<open>
  C7 as stated fails on both counts when the random number is one half: the id is the
  single character \<open>i\<close>, and the collection already has a record of that id.
\<close>

theorem create_id_counterexample:
  "getStorage ''Product'' half_session = (Inr [salt], half_session) \<and>
   fst (create ''Product'' [(''name'', JStr ''Pepper'')] JNull half_session) =
     Inr (JObj [(''name'', JStr ''Pepper''), (''id'', JStr ''i''),
                (''created_date'', JStr ''2024-05-01T10:00:00.000Z''),
                (''created_by'', JStr ''u1''), (''created_by_name'', JStr ''Ann''),
                (''updated_date'', JStr ''2024-05-01T10:00:00.001Z''),
                (''updated_by'', JStr ''u1''), (''updated_by_name'', JStr ''Ann''),
                (''likes'', JArr []), (''dislikes'', JArr []), (''edit_history'', JArr [])]) \<and>
   length ''i'' < 7 \<and> obj_get salt ''id'' = JStr ''i''"
proof -
  have h: "getStorage ''Product'' half_session = (Inr [salt], half_session)"
    by (simp add: getStorage_def half_session_def local_session_def local_key_def)
  have u: "getCurrentUser half_session = (JStr ''u1'', JStr ''Ann'')"
    by (simp add: getCurrentUser_def half_session_def local_session_def ann_def obj_get_def
          js_or_def)
  have v: "random half_session (draws half_session) = ''0.i''"
    "clock half_session (ticks half_session) = ''2024-05-01T10:00:00.000Z''"
    "clock half_session (Suc (ticks half_session)) = ''2024-05-01T10:00:00.001Z''"
    by (simp_all add: half_session_def local_session_def)
  have c: "fst (create ''Product'' [(''name'', JStr ''Pepper'')] JNull half_session) =
     Inr (JObj [(''name'', JStr ''Pepper''), (''id'', JStr ''i''),
                (''created_date'', JStr ''2024-05-01T10:00:00.000Z''),
                (''created_by'', JStr ''u1''), (''created_by_name'', JStr ''Ann''),
                (''updated_date'', JStr ''2024-05-01T10:00:00.001Z''),
                (''updated_by'', JStr ''u1''), (''updated_by_name'', JStr ''Ann''),
                (''likes'', JArr []), (''dislikes'', JArr []), (''edit_history'', JArr [])])"
    unfolding create_eq[OF h] u v fst_conv snd_conv
    by (simp add: new_item_def obj_assign_Cons obj_assign_Nil js_or_def substr_def)
  have s: "obj_get salt ''id'' = JStr ''i''"
    by (simp add: salt_def obj_get_def)
  from h c s show ?thesis by simp
qed

section \<open>JSON values and the round trip\<close>

lemma is_json_defined: "is_json v \<Longrightarrow> v \<noteq> JUndefined"
  by auto

lemma json_roundtrip_id: "is_json v \<Longrightarrow> json_roundtrip v = v"
proof (induction v)
  case (JArr xs)
  have "\<And>x. x \<in> set xs \<Longrightarrow> (if x = JUndefined then JNull else json_roundtrip x) = x"
    using JArr by (auto simp: list_all_iff)
  then have "map (\<lambda>x. if x = JUndefined then JNull else json_roundtrip x) xs = xs"
    by (rule map_idI)
  then show ?case by simp
next
  case (JObj kvs)
  have ih: "json_roundtrip v = v" if "(k, v) \<in> set kvs" for k v
    using JObj.IH[of "(k, v)" v] JObj.prems that by (auto simp: list_all_iff)
  have "filter (\<lambda>(k, v). v \<noteq> JUndefined) kvs = kvs"
    using JObj.prems by (intro filter_True) (auto simp: list_all_iff)
  moreover have "map (\<lambda>(k, v). (k, json_roundtrip v)) kvs = kvs"
    by (rule map_idI) (auto simp: ih)
  ultimately show ?case by simp
qed simp_all

lemma roundtrip_obj_id: "is_json_obj item \<Longrightarrow> roundtrip_obj item = item"
  using json_roundtrip_id[of "JObj item"] by (simp add: is_json_obj_def roundtrip_obj_def)






section \<open>The toggles on one record\<close>















section \<open>The invariant of the stores\<close>
















section \<open>Every operation keeps the invariant of the stores\<close>










section \<open>Reading what was written\<close>



lemma setStorage_in_sync:
  assumes "github w" and "faults w = []"
      and "shaCache w e = map_option (sha_of w) (remote w (data_path e))"
  shows "setStorage e d w =
     w\<lparr>remote := (remote w)(data_path e \<mapsto> jsonString d),
       shaCache := (shaCache w)(e \<mapsto> sha_of w (jsonString d))\<rparr>"
  using assms by (simp add: setStorage_eq createOrUpdateFileContents_def transit_def Let_def)


section \<open>Two toggles in a row\<close>







section \<open>Where two toggles do not pair\<close>











section \<open>The retry after a conflict\<close>

lemma setStorage_retry:
  assumes "github w" and "faults w = []"
      and "remote w (data_path e) = Some current"
      and "shaCache w e \<noteq> Some (sha_of w current)"
  shows "remote (setStorage e d w) = (remote w)(data_path e \<mapsto> jsonString d)"
    and "shaCache (setStorage e d w) = (shaCache w)(e \<mapsto> sha_of w (jsonString d))"
    and "localStorage (setStorage e d w) = localStorage w"
  using assms
  by (simp_all add: setStorage_eq createOrUpdateFileContents_def getContent_def transit_def
        Let_def)

lemma create_on_eq:
  "create_on e data userId items w =
     (JObj (new_item data (random w (draws w)) (clock w (ticks w)) (clock w (Suc (ticks w)))
              (js_or userId (fst (getCurrentUser w))) (snd (getCurrentUser w))),
      setStorage e
        (items @ [new_item data (random w (draws w)) (clock w (ticks w)) (clock w (Suc (ticks w)))
              (js_or userId (fst (getCurrentUser w))) (snd (getCurrentUser w))])
        (w\<lparr>draws := Suc (draws w), ticks := Suc (Suc (ticks w))\<rparr>))"
  by (simp add: create_on_def Let_def Math_random_toString36_def Date_toISOString_def
        getCurrentUser_def split: prod.splits)

text \<open>
  C1, as the code has it. When the write of \<open>setStorage\<close> meets a conflict (the
  cached token is not the token of the file in the repository) and the repository stays
  reachable, the retry reads the file for its token only and writes the text it had
  already built: the repository then holds the collection handed to \<open>setStorage\<close>,
  whatever the file held, and localStorage is untouched. So a \<open>create\<close> that read
  \<open>items\<close> before another writer changed the file leaves \<open>items\<close> with its own new
  record in the repository, and nothing of the other writer's change that \<open>items\<close>
  does not have.
\<close>

theorem retry_rewrites_same_text:
  assumes "github w" and "faults w = []"
      and "remote w (data_path entityName) = Some current"
      and "shaCache w entityName \<noteq> Some (sha_of w current)"
  shows "remote (setStorage entityName data w) (data_path entityName) = Some (jsonString data) \<and>
         shaCache (setStorage entityName data w) entityName = Some (sha_of w (jsonString data)) \<and>
         localStorage (setStorage entityName data w) = localStorage w \<and>
         (\<exists>newItem. fst (create_on entityName payload userId items w) = JObj newItem \<and>
            remote (snd (create_on entityName payload userId items w)) (data_path entityName) =
              Some (jsonString (items @ [newItem])))"
proof (intro conjI)
  show "remote (setStorage entityName data w) (data_path entityName) = Some (jsonString data)"
    by (simp add: setStorage_retry(1)[OF assms])
  show "shaCache (setStorage entityName data w) entityName = Some (sha_of w (jsonString data))"
    by (simp add: setStorage_retry(2)[OF assms])
  show "localStorage (setStorage entityName data w) = localStorage w"
    by (rule setStorage_retry(3)[OF assms])
  define w' where "w' = w\<lparr>draws := Suc (draws w), ticks := Suc (Suc (ticks w))\<rparr>"
  define newItem where "newItem = new_item payload (random w (draws w)) (clock w (ticks w))
      (clock w (Suc (ticks w))) (js_or userId (fst (getCurrentUser w))) (snd (getCurrentUser w))"
  have conflict: "github w'" "faults w' = []" "remote w' (data_path entityName) = Some current"
    "shaCache w' entityName \<noteq> Some (sha_of w' current)"
    using assms by (simp_all add: w'_def)
  have "remote (setStorage entityName (items @ [newItem]) w') (data_path entityName) =
      Some (jsonString (items @ [newItem]))"
    by (simp add: setStorage_retry(1)[OF conflict])
  then show "\<exists>newItem. fst (create_on entityName payload userId items w) = JObj newItem \<and>
      remote (snd (create_on entityName payload userId items w)) (data_path entityName) =
        Some (jsonString (items @ [newItem]))"
    unfolding create_on_eq fst_conv snd_conv newItem_def[symmetric] w'_def[symmetric]
    by (intro exI[of _ newItem] conjI refl)
qed

subsection \<open>Writer A, then writer B on what it had read\<close>

lemma milk_json: "is_json_obj milk" and tea_json: "is_json_obj tea" and soap_json: "is_json_obj soap"
  by (simp_all add: is_json_obj_def milk_def tea_def soap_def)

lemma writer_a_creates:
  "fst (create ''Product'' [(''name'', JStr ''Tea'')] JNull github_session) = Inr (JObj tea)"
  "remote (snd (create ''Product'' [(''name'', JStr ''Tea'')] JNull github_session)) =
     [data_path ''Product'' \<mapsto> Collection [milk, tea]]"
proof -
  let ?w1 = "github_session\<lparr>shaCache := [''Product'' \<mapsto> Suc (Suc 0)]\<rparr>"
  have u: "getCurrentUser ?w1 = (JStr ''u1'', JStr ''Ann'')"
    by (simp add: getCurrentUser_def github_session_def ann_def obj_get_def js_or_def)
  have n: "new_item [(''name'', JStr ''Tea'')] (random ?w1 (draws ?w1)) (clock ?w1 (ticks ?w1))
      (clock ?w1 (Suc (ticks ?w1))) (js_or JNull (fst (getCurrentUser ?w1)))
      (snd (getCurrentUser ?w1)) = tea"
    unfolding u
    by (simp add: github_session_def new_item_def obj_assign_Cons obj_assign_Nil js_or_def
          substr_def tea_def)
  show "fst (create ''Product'' [(''name'', JStr ''Tea'')] JNull github_session) = Inr (JObj tea)"
    unfolding create_eq[OF getStorage_github_session] n by simp
  have j: "jsonString [milk, tea] = Collection [milk, tea]"
    by (simp add: jsonString_def roundtrip_obj_id milk_json tea_json)
  show "remote (snd (create ''Product'' [(''name'', JStr ''Tea'')] JNull github_session)) =
     [data_path ''Product'' \<mapsto> Collection [milk, tea]]"
    unfolding create_eq[OF getStorage_github_session] n snd_conv
    by (subst setStorage_in_sync)
       (simp_all add: github_session_def sha_sample_def j)
qed

lemma getStorage_writer_b:
  "getStorage ''Product'' writer_b =
     (Inr [milk], writer_b\<lparr>shaCache := [''Product'' \<mapsto> Suc (Suc 0)]\<rparr>)"
  by (simp add: getStorage_def writer_b_def github_session_def data_path_def getContent_def
        transit_def sha_sample_def)

lemma stale_b_facts:
  "github stale_b" "faults stale_b = []"
  "remote stale_b (data_path ''Product'') = Some (Collection [milk, tea])"
  "shaCache stale_b ''Product'' = Some (Suc (Suc 0))"
  "sha_of stale_b = sha_sample"
  unfolding stale_b_def getStorage_writer_b writer_a_creates(2) snd_conv
  by (simp_all add: writer_b_def github_session_def)

lemma writer_b_item:
  "fst (create_on ''Product'' [(''name'', JStr ''Soap'')] JNull [milk] stale_b) = JObj soap"
proof -
  have u: "getCurrentUser stale_b = (JStr ''u2'', JStr ''Bob'')"
    unfolding stale_b_def getStorage_writer_b snd_conv
    by (simp add: writer_b_def getCurrentUser_def bob_def obj_get_def js_or_def)
  have v: "random stale_b (draws stale_b) = ''0.9x8c7v6b5n4''"
    "clock stale_b (ticks stale_b) = ''2024-05-01T10:00:00.000Z''"
    "clock stale_b (Suc (ticks stale_b)) = ''2024-05-01T10:00:00.001Z''"
    unfolding stale_b_def getStorage_writer_b snd_conv
    by (simp_all add: writer_b_def github_session_def)
  show ?thesis
    unfolding create_on_eq fst_conv u v
    by (simp add: new_item_def obj_assign_Cons obj_assign_Nil js_or_def substr_def soap_def)
qed

theorem retry_rewrites_same_text_witness:
  "github stale_b \<and> faults stale_b = [] \<and>
   remote stale_b (data_path ''Product'') = Some (Collection [milk, tea]) \<and>
   shaCache stale_b ''Product'' \<noteq> Some (sha_of stale_b (Collection [milk, tea])) \<and>
   fst (create_on ''Product'' [(''name'', JStr ''Soap'')] JNull [milk] stale_b) = JObj soap \<and>
   remote (snd (create_on ''Product'' [(''name'', JStr ''Soap'')] JNull [milk] stale_b))
     (data_path ''Product'') = Some (Collection [milk, soap])"
proof -
  have c: "shaCache stale_b ''Product'' \<noteq> Some (sha_of stale_b (Collection [milk, tea]))"
    by (simp add: stale_b_facts sha_sample_def)
  from retry_rewrites_same_text[OF stale_b_facts(1,2,3) c,
      where payload = "[(''name'', JStr ''Soap'')]" and userId = JNull and items = "[milk]"]
  obtain newItem where
    n: "fst (create_on ''Product'' [(''name'', JStr ''Soap'')] JNull [milk] stale_b) = JObj newItem"
    and r: "remote (snd (create_on ''Product'' [(''name'', JStr ''Soap'')] JNull [milk] stale_b))
      (data_path ''Product'') = Some (jsonString ([milk] @ [newItem]))"
    by blast
  from n have "newItem = soap" by (simp add: writer_b_item)
  with r have "remote (snd (create_on ''Product'' [(''name'', JStr ''Soap'')] JNull [milk] stale_b))
      (data_path ''Product'') = Some (Collection [milk, soap])"
    by (simp add: jsonString_def roundtrip_obj_id milk_json soap_json)
  then show ?thesis
    by (intro conjI stale_b_facts(1,2,3) c writer_b_item)
qed

text \<open>
  C1 as stated fails: writer B reads the collection, writer A creates a record and its
  write succeeds, writer B's write meets the conflict and is retried. The repository
  then holds what B had read and B's record; A's record is gone.
\<close>

theorem lost_update_counterexample:
  "fst (getStorage ''Product'' writer_b) = Inr [milk] \<and>
   fst (create ''Product'' [(''name'', JStr ''Tea'')] JNull github_session) = Inr (JObj tea) \<and>
   remote (snd (create ''Product'' [(''name'', JStr ''Tea'')] JNull github_session))
     (data_path ''Product'') = Some (Collection [milk, tea]) \<and>
   shaCache stale_b ''Product'' \<noteq>
     map_option (sha_of stale_b) (remote stale_b (data_path ''Product'')) \<and>
   fst (create_on ''Product'' [(''name'', JStr ''Soap'')] JNull [milk] stale_b) = JObj soap \<and>
   remote (snd (create_on ''Product'' [(''name'', JStr ''Soap'')] JNull [milk] stale_b))
     (data_path ''Product'') = Some (Collection [milk, soap]) \<and>
   tea \<notin> set [milk, soap]"
proof -
  have b: "fst (getStorage ''Product'' writer_b) = Inr [milk]"
    by (simp add: getStorage_writer_b)
  have a: "remote (snd (create ''Product'' [(''name'', JStr ''Tea'')] JNull github_session))
     (data_path ''Product'') = Some (Collection [milk, tea])"
    by (simp add: writer_a_creates(2))
  have c: "shaCache stale_b ''Product'' \<noteq>
     map_option (sha_of stale_b) (remote stale_b (data_path ''Product''))"
    by (simp add: stale_b_facts sha_sample_def)
  let ?w = "stale_b\<lparr>draws := Suc (draws stale_b), ticks := Suc (Suc (ticks stale_b))\<rparr>"
  have s: "snd (create_on ''Product'' [(''name'', JStr ''Soap'')] JNull [milk] stale_b) =
      setStorage ''Product'' [milk, soap] ?w"
    using writer_b_item unfolding create_on_eq by simp
  have j: "jsonString [milk, soap] = Collection [milk, soap]"
    by (simp add: jsonString_def roundtrip_obj_id milk_json soap_json)
  have r: "remote (snd (create_on ''Product'' [(''name'', JStr ''Soap'')] JNull [milk] stale_b))
     (data_path ''Product'') = Some (Collection [milk, soap])"
    unfolding s
    by (simp add: setStorage_eq createOrUpdateFileContents_def getContent_def transit_def
          Let_def stale_b_facts sha_sample_def j)
  have t: "tea \<notin> set [milk, soap]"
    by (simp add: tea_def milk_def soap_def)
  show ?thesis
    by (intro conjI b writer_a_creates(1) a c writer_b_item r t)
qed

end
